theory Spec2Isabelle
  imports Main
begin

section \<open>Operands of MIPS instructions\<close>

text \<open>
  The decompiler reads MIPS assembly. An operand of an instruction is an \<open>Argument\<close>: a
  register, a global symbol, a macro (\<open>%hi\<close>, \<open>%lo\<close>), a number, an address mode
  \<open>lhs(rhs)\<close>, a binary operation or a jump target. The classes of \<open>main.py\<close> are
  frozen \<open>attr.s\<close> classes with structural equality, so a datatype with HOL equality
  models them.
\<close>

datatype argument =
    Register string
  | GlobalSymbol string
  | Macro string argument
  | NumberLiteral int
  | AddressMode "argument option" argument
  | BinOp string argument argument
  | JumpTarget string

datatype error =
    AssertionError
  | SystemExit
  | IndexError
  | KeyError
  | AttributeError
  | StopIteration
  | LiteralError
  | FloatLiteral
  | DontKnowHowToHandle string

definition ascii_letters :: string where
  "ascii_letters = ''abcdefghijklmnopqrstuvwxyzABCDEFGHIJKLMNOPQRSTUVWXYZ''"
definition digits :: string where
  "digits = ''0123456789''"
definition hexdigits :: string where
  "hexdigits = ''0123456789abcdefABCDEF''"
definition valid_word :: string where
  "valid_word = ascii_letters @ digits @ ''_''"
definition valid_number :: string where
  "valid_number = ''-x'' @ hexdigits"

definition isspace :: "char \<Rightarrow> bool" where
  "isspace c = (of_char c \<in> {9, 10, 11, 12, 13, 28, 29, 30, 31, 32, 133, 160 :: nat})"

definition parse_word :: "string \<Rightarrow> string \<Rightarrow> string \<times> string" where
  "parse_word elems valid =
     (takeWhile (\<lambda>c. c \<in> set valid) elems, dropWhile (\<lambda>c. c \<in> set valid) elems)"

definition expect :: "string \<Rightarrow> string \<Rightarrow> error + (char \<times> string)" where
  "expect n arg_elems =
     (case arg_elems of
        [] \<Rightarrow> Inl IndexError
      | g # rest \<Rightarrow> if g \<notin> set n then Inl SystemExit else Inr (g, rest))"

fun is_NumberLiteral :: "argument \<Rightarrow> bool" where
  "is_NumberLiteral (NumberLiteral _) = True"
| "is_NumberLiteral _ = False"

fun is_Macro :: "argument \<Rightarrow> bool" where
  "is_Macro (Macro _ _) = True"
| "is_Macro _ = False"

fun is_GlobalSymbol :: "argument \<Rightarrow> bool" where
  "is_GlobalSymbol (GlobalSymbol _) = True"
| "is_GlobalSymbol _ = False"

definition digit_value :: "char \<Rightarrow> nat" where
  "digit_value c =
     (let k = of_char c :: nat in
      if 48 \<le> k \<and> k \<le> 57 then k - 48
      else if 97 \<le> k \<and> k \<le> 102 then k - 87
      else k - 55)"

definition number_of_digits :: "nat \<Rightarrow> string \<Rightarrow> nat" where
  "number_of_digits base s = foldl (\<lambda>acc c. base * acc + digit_value c) 0 s"

text \<open>
  \<open>parse_number\<close> hands the characters it has read, all of them of \<open>valid_number\<close>
  and the first a digit or a minus sign, to Python's \<open>ast.literal_eval\<close>. Of the
  literals that can be written with these characters, \<open>literal_eval\<close> below returns
  the value of a decimal, a hexadecimal (\<open>0x\<close>) and a binary (\<open>0b\<close>, \<open>0B\<close>: the
  letter is a hexadecimal digit) integer, with an optional minus sign. A float with an
  exponent (\<open>1e5\<close>, \<open>1E-5\<close>) makes a \<open>NumberLiteral\<close> of a float in the source;
  numbers are integers here, so it is kept apart as \<open>FloatLiteral\<close>, a result that no
  theorem below relies on. Every other string is taken to raise
  (\<open>SyntaxError\<close> or \<open>ValueError\<close>, \<open>LiteralError\<close>), as it does from Python 3.7 on.
\<close>

definition is_float_literal :: "string \<Rightarrow> bool" where
  "is_float_literal s \<longleftrightarrow>
     (let mantissa = takeWhile (\<lambda>c. c \<in> set digits) s;
          rest = dropWhile (\<lambda>c. c \<in> set digits) s
      in mantissa \<noteq> [] \<and>
         (case rest of
            [] \<Rightarrow> False
          | c # e \<Rightarrow>
              (c = CHR ''e'' \<or> c = CHR ''E'') \<and>
              (let ds = (case e of CHR ''-'' # t \<Rightarrow> t | _ \<Rightarrow> e)
               in ds \<noteq> [] \<and> set ds \<subseteq> set digits)))"

definition unsigned_literal :: "string \<Rightarrow> error + int" where
  "unsigned_literal s =
     (if take 2 s = ''0x'' \<and> drop 2 s \<noteq> [] \<and> set (drop 2 s) \<subseteq> set hexdigits
        then Inr (int (number_of_digits 16 (drop 2 s)))
      else if (take 2 s = ''0b'' \<or> take 2 s = ''0B'') \<and> drop 2 s \<noteq> [] \<and>
              set (drop 2 s) \<subseteq> set ''01''
        then Inr (int (number_of_digits 2 (drop 2 s)))
      else if s \<noteq> [] \<and> set s \<subseteq> set digits \<and> (hd s \<noteq> CHR ''0'' \<or> set s \<subseteq> {CHR ''0''})
        then Inr (int (number_of_digits 10 s))
      else if is_float_literal s then Inl FloatLiteral
      else Inl LiteralError)"

definition literal_eval :: "string \<Rightarrow> error + int" where
  "literal_eval s =
     (case s of
        CHR ''-'' # t \<Rightarrow> (case unsigned_literal t of Inl e \<Rightarrow> Inl e | Inr v \<Rightarrow> Inr (- v))
      | _ \<Rightarrow> unsigned_literal s)"

definition parse_number :: "string \<Rightarrow> error + (int \<times> string)" where
  "parse_number elems =
     (case parse_word elems valid_number of
        (number_str, rest) \<Rightarrow>
          (case literal_eval number_str of Inl e \<Rightarrow> Inl e | Inr v \<Rightarrow> Inr (v, rest)))"

definition parse_operator :: "char \<Rightarrow> string \<Rightarrow> error + (string \<times> string)" where
  "parse_operator tok arg_elems =
     (if tok = CHR ''>'' then
        (case expect ''>'' arg_elems of
           Inl e \<Rightarrow> Inl e
         | Inr (_, r1) \<Rightarrow>
             (case expect ''>'' r1 of
                Inl e \<Rightarrow> Inl e
              | Inr (_, r2) \<Rightarrow> Inr (''>>'', r2)))
      else
        (case expect ''&+'' arg_elems of
           Inl e \<Rightarrow> Inl e
         | Inr (g, r1) \<Rightarrow> Inr ([g], r1)))"

lemma parse_word_length: "parse_word xs v = (w, r) \<Longrightarrow> length r \<le> length xs"
  by (auto simp: parse_word_def length_dropWhile_le)

lemma parse_word_length_hd:
  "x \<in> set v \<Longrightarrow> parse_word (x # xs) v = (w, r) \<Longrightarrow> length r \<le> length xs"
  by (auto simp: parse_word_def length_dropWhile_le)

lemma parse_word_length': "length (snd (parse_word xs v)) \<le> length xs"
  by (auto simp: parse_word_def length_dropWhile_le)

lemma expect_length': "expect n xs = Inr b \<Longrightarrow> length (snd b) < length xs"
  by (auto simp: expect_def split: list.splits if_splits)

lemma expect_length: "expect n xs = Inr (g, r) \<Longrightarrow> length r < length xs"
  by (auto simp: expect_def split: list.splits if_splits)

lemma parse_number_length:
  "x \<in> set valid_number \<Longrightarrow> parse_number (x # xs) = Inr (n, r) \<Longrightarrow> length r \<le> length xs"
  by (auto simp: parse_number_def parse_word_def length_dropWhile_le split: sum.splits)

lemma parse_operator_length: "parse_operator t xs = Inr (oper, r) \<Longrightarrow> length r < length xs"
  by (auto simp: parse_operator_def split: sum.splits if_splits dest!: expect_length)

function (sequential) parse_loop ::
  "argument option \<Rightarrow> string \<Rightarrow> error + (argument option \<times> string)" where
  "parse_loop val [] = Inr (val, [])"
| "parse_loop val (tok # rest) =
     (if isspace tok then parse_loop val rest
      else if tok = CHR ''$'' then
        (if val \<noteq> None then Inl AssertionError
         else (case parse_word rest valid_word of
                 (w, r) \<Rightarrow> parse_loop (Some (Register w)) r))
      else if tok = CHR ''.'' then
        (if val \<noteq> None then Inl AssertionError
         else (case parse_word rest valid_word of
                 (w, r) \<Rightarrow> parse_loop (Some (JumpTarget w)) r))
      else if tok = CHR ''%'' then
        (if val \<noteq> None then Inl AssertionError
         else (case parse_word rest valid_word of
           (macro_name, r1) \<Rightarrow>
             (if macro_name \<noteq> ''hi'' \<and> macro_name \<noteq> ''lo'' then Inl AssertionError
              else (case expect ''('' r1 of
                 Inl e \<Rightarrow> Inl e
               | Inr (_, r2) \<Rightarrow>
                   (case parse_loop None r2 of
                      Inl e \<Rightarrow> Inl e
                    | Inr (None, r3) \<Rightarrow> Inl AssertionError
                    | Inr (Some m, r3) \<Rightarrow>
                        (case expect '')'' r3 of
                           Inl e \<Rightarrow> Inl e
                         | Inr (_, r4) \<Rightarrow> parse_loop (Some (Macro macro_name m)) r4))))))
      else if tok = CHR '')'' then Inr (val, tok # rest)
      else if tok \<in> set (''-'' @ digits) then
        (if val \<noteq> None then Inl AssertionError
         else (case parse_number (tok # rest) of
                 Inl e \<Rightarrow> Inl e
               | Inr (n, r) \<Rightarrow> parse_loop (Some (NumberLiteral n)) r))
      else if tok = CHR ''('' then
        (if \<not> (case val of None \<Rightarrow> True | Some v \<Rightarrow> is_NumberLiteral v \<or> is_Macro v)
           then Inl AssertionError
         else (case expect ''('' (tok # rest) of
           Inl e \<Rightarrow> Inl e
         | Inr (_, r1) \<Rightarrow>
             (case parse_loop None r1 of
                Inl e \<Rightarrow> Inl e
              | Inr (None, r2) \<Rightarrow> Inl AssertionError
              | Inr (Some rhs, r2) \<Rightarrow>
                  (case expect '')'' r2 of
                     Inl e \<Rightarrow> Inl e
                   | Inr (_, r3) \<Rightarrow> parse_loop (Some (AddressMode val rhs)) r3))))
      else if tok \<in> set valid_word then
        (if val \<noteq> None then Inl AssertionError
         else (case parse_word (tok # rest) valid_word of
                 (w, r) \<Rightarrow> parse_loop (Some (GlobalSymbol w)) r))
      else if tok \<in> set ''>+&'' then
        (case val of
           None \<Rightarrow> Inl AssertionError
         | Some v \<Rightarrow>
             (if \<not> (is_NumberLiteral v \<or> is_GlobalSymbol v) then Inl AssertionError
              else (case parse_operator tok (tok # rest) of
                 Inl e \<Rightarrow> Inl e
               | Inr (oper, r1) \<Rightarrow>
                   (case parse_loop None r1 of
                      Inl e \<Rightarrow> Inl e
                    | Inr (None, r2) \<Rightarrow> Inl AssertionError
                    | Inr (Some rhs, r2) \<Rightarrow>
                        (if is_NumberLiteral rhs then Inr (Some (BinOp oper v rhs), r2)
                         else Inl AssertionError)))))
      else Inl SystemExit)"
  by pat_completeness auto

lemma parse_number_length': "parse_number xs = Inr b \<Longrightarrow> length (snd b) \<le> length xs"
  by (auto simp: parse_number_def parse_word_def length_dropWhile_le split: sum.splits)

lemma parse_operator_length': "parse_operator t xs = Inr b \<Longrightarrow> length (snd b) < length xs"
  by (cases b) (auto dest: parse_operator_length)

lemma parse_loop_length:
  "parse_loop_dom (v, xs) \<Longrightarrow> parse_loop v xs = Inr (res, ys) \<Longrightarrow> length ys \<le> length xs"
proof (induction v xs arbitrary: res ys rule: parse_loop.pinduct)
  case (1 val)
  then show ?case by (simp add: parse_loop.psimps)
next
  case (2 val tok rest)
  note eq = parse_loop.psimps(2)[OF "2.hyps"]
  note IH = "2.IH"
  note P = "2.prems"[unfolded eq]
  define pw where "pw = parse_word rest valid_word"
  have pwl: "length (snd pw) \<le> length rest"
    unfolding pw_def by (rule parse_word_length')
  show ?case
  proof (cases "isspace tok")
    case True
    then show ?thesis using P IH(1) by (simp add: le_Suc_eq)
  next
    case ns: False
    show ?thesis
    proof (cases "tok = CHR ''$''")
      case True
      from P ns True have v: "\<not> val \<noteq> None"
        and r: "parse_loop (Some (Register (fst pw))) (snd pw) = Inr (res, ys)"
        by (auto simp: case_prod_beta pw_def split: if_splits)
      from IH(2)[OF ns True v prod.collapse r[unfolded pw_def]] pwl show ?thesis
        by (simp add: pw_def)
    next
      case nd: False
      show ?thesis
      proof (cases "tok = CHR ''.''")
        case True
        from P ns nd True have v: "\<not> val \<noteq> None"
          and r: "parse_loop (Some (JumpTarget (fst pw))) (snd pw) = Inr (res, ys)"
          by (auto simp: case_prod_beta pw_def split: if_splits)
        from IH(3)[OF ns nd True v prod.collapse r[unfolded pw_def]] pwl show ?thesis
          by (simp add: pw_def)
      next
        case ndot: False
        show ?thesis
        proof (cases "tok = CHR ''%''")
          case True
          from P ns nd ndot True obtain b1 b2 m b3 where v: "\<not> val \<noteq> None"
            and nm: "\<not> (fst pw \<noteq> ''hi'' \<and> fst pw \<noteq> ''lo'')"
            and e1: "expect ''('' (snd pw) = Inr b1"
            and r1: "parse_loop None (snd b1) = Inr b2"
            and fm: "fst b2 = Some m"
            and e2: "expect '')'' (snd b2) = Inr b3"
            and r2: "parse_loop (Some (Macro (fst pw) m)) (snd b3) = Inr (res, ys)"
            by (auto simp: case_prod_beta pw_def split: if_splits sum.splits option.splits)
          have r1': "parse_loop None (snd b1) = Inr (fst b2, snd b2)" using r1 by simp
          note pre = ns nd ndot True v prod.collapse nm[unfolded pw_def] e1[unfolded pw_def]
            prod.collapse
          have 1: "length (snd b2) \<le> length (snd b1)"
            by (rule IH(4)[OF pre r1'])
          have 2: "length ys \<le> length (snd b3)"
            by (rule IH(5)[OF pre r1 prod.collapse fm e2 prod.collapse r2[unfolded pw_def]])
          from 1 2 expect_length'[OF e1] expect_length'[OF e2] pwl show ?thesis by simp
        next
          case npc: False
          show ?thesis
          proof (cases "tok = CHR '')''")
            case True
            then show ?thesis using P ns nd ndot npc by auto
          next
            case nrp: False
            show ?thesis
            proof (cases "tok \<in> set (''-'' @ digits)")
              case True
              from P ns nd ndot npc nrp True obtain b where v: "\<not> val \<noteq> None"
                and e: "parse_number (tok # rest) = Inr b"
                and r: "parse_loop (Some (NumberLiteral (fst b))) (snd b) = Inr (res, ys)"
                by (auto simp: case_prod_beta split: if_splits sum.splits)
              from IH(6)[OF ns nd ndot npc nrp True v e prod.collapse r]
                parse_number_length'[OF e] show ?thesis by simp
            next
              case nnum: False
              show ?thesis
              proof (cases "tok = CHR ''(''")
                case True
                from P ns nd ndot npc nrp nnum True obtain b1 b2 m b3 where
                  v: "\<not> \<not> (case val of None \<Rightarrow> True | Some v \<Rightarrow> is_NumberLiteral v \<or> is_Macro v)"
                  and e1: "expect ''('' (tok # rest) = Inr b1"
                  and r1: "parse_loop None (snd b1) = Inr b2"
                  and fm: "fst b2 = Some m"
                  and e2: "expect '')'' (snd b2) = Inr b3"
                  and r2: "parse_loop (Some (AddressMode val m)) (snd b3) = Inr (res, ys)"
                  by (auto simp: case_prod_beta split: if_splits sum.splits option.splits)
                have r1': "parse_loop None (snd b1) = Inr (fst b2, snd b2)" using r1 by simp
                note pre = ns nd ndot npc nrp nnum True v e1 prod.collapse
                have 1: "length (snd b2) \<le> length (snd b1)"
                  by (rule IH(7)[OF pre r1'])
                have 2: "length ys \<le> length (snd b3)"
                  by (rule IH(8)[OF pre r1 prod.collapse fm e2 prod.collapse r2])
                from 1 2 expect_length'[OF e1] expect_length'[OF e2] show ?thesis by simp
              next
                case nlp: False
                show ?thesis
                proof (cases "tok \<in> set valid_word")
                  case True
                  define pw' where "pw' = parse_word (tok # rest) valid_word"
                  from P ns nd ndot npc nrp nnum nlp True have v: "\<not> val \<noteq> None"
                    and r: "parse_loop (Some (GlobalSymbol (fst pw'))) (snd pw') = Inr (res, ys)"
                    by (auto simp: case_prod_beta pw'_def split: if_splits)
                  from IH(9)[OF ns nd ndot npc nrp nnum nlp True v prod.collapse r[unfolded pw'_def]]
                    parse_word_length'[of "tok # rest" valid_word]
                  show ?thesis by simp
                next
                  case nw: False
                  show ?thesis
                  proof (cases "tok \<in> set ''>+&''")
                    case True
                    from P ns nd ndot npc nrp nnum nlp nw True obtain v b1 b2 where
                      v: "val = Some v"
                      and t: "\<not> \<not> (is_NumberLiteral v \<or> is_GlobalSymbol v)"
                      and e1: "parse_operator tok (tok # rest) = Inr b1"
                      and r1: "parse_loop None (snd b1) = Inr b2"
                      and ys: "ys = snd b2"
                      by (auto simp: case_prod_beta split: if_splits sum.splits option.splits)
                    have r1': "parse_loop None (snd b1) = Inr (fst b2, snd b2)" using r1 by simp
                    from IH(10)[OF ns nd ndot npc nrp nnum nlp nw True v t e1 prod.collapse r1']
                      parse_operator_length'[OF e1] ys
                    show ?thesis by simp
                  next
                    case False
                    then show ?thesis using P ns nd ndot npc nrp nnum nlp nw by simp
                  qed
                qed
              qed
            qed
          qed
        qed
      qed
    qed
  qed
qed

lemma minus_digits_valid_number: "t \<in> set (''-'' @ digits) \<Longrightarrow> t \<in> set valid_number"
  by (auto simp: valid_number_def digits_def hexdigits_def)

termination parse_loop
proof (relation "measure (\<lambda>(v, xs). length xs)", goal_cases)
  case 1
  show ?case by simp
next
  case (2 val tok rest)
  show ?case by simp
next
  case (3 val tok rest x y)
  from parse_word_length[OF 3(4)[symmetric]] show ?case by simp
next
  case (4 val tok rest x y)
  from parse_word_length[OF 4(5)[symmetric]] show ?case by simp
next
  case (5 val tok rest x y b xa ya)
  from parse_word_length[OF 5(6)[symmetric]] expect_length'[OF 5(8)] 5(9)[symmetric]
  show ?case by simp
next
  case (6 val tok rest x y b xa ya ba xaa yb x2 bb xab yc)
  have "length yb \<le> length ya"
    using parse_loop_length[of None ya "Some x2" yb] 6 by auto
  with parse_word_length[OF 6(6)[symmetric]] expect_length'[OF 6(8)] 6(9)[symmetric]
    expect_length'[OF 6(13)] 6(14)[symmetric]
  show ?case by simp
next
  case (7 val tok rest b x y)
  from parse_number_length[OF minus_digits_valid_number[OF 7(6)], of rest x y] 7(8) 7(9)
  show ?case by simp
next
  case (8 val tok rest b x y)
  from expect_length'[OF 8(9)] 8(10)[symmetric] show ?case by simp
next
  case (9 val tok rest b x y ba xa ya x2 bb xb yb)
  have "length ya \<le> length y"
    using parse_loop_length[of None y "Some x2" ya] 9 by auto
  with expect_length'[OF 9(9)] 9(10)[symmetric] expect_length'[OF 9(14)] 9(15)[symmetric]
  show ?case by simp
next
  case (10 val tok rest x y)
  from parse_word_length_hd[OF 10(8) 10(10)[symmetric]] show ?case by simp
next
  case (11 val tok rest x2 b x y)
  from parse_operator_length'[OF 11(12)] 11(13)[symmetric] show ?case by simp
qed

definition parse_arg_elems :: "string \<Rightarrow> error + (argument option \<times> string)" where
  "parse_arg_elems arg_elems = parse_loop None arg_elems"

definition parse_arg :: "string \<Rightarrow> error + argument option" where
  "parse_arg arg = (case parse_arg_elems arg of Inl e \<Rightarrow> Inl e | Inr (v, _) \<Rightarrow> Inr v)"

declare parse_loop.simps(2) [simp del]

lemma parse_loop_space: "isspace tok \<Longrightarrow> parse_loop val (tok # rest) = parse_loop val rest"
  by (simp add: parse_loop.simps(2))

lemma parse_loop_rparen: "parse_loop val (CHR '')'' # rest) = Inr (val, CHR '')'' # rest)"
  by (simp add: parse_loop.simps(2) isspace_def)

lemma parse_loop_dollar:
  "parse_loop val (CHR ''$'' # rest) =
     (if val \<noteq> None then Inl AssertionError
      else parse_loop (Some (Register (fst (parse_word rest valid_word))))
             (snd (parse_word rest valid_word)))"
  by (simp add: parse_loop.simps(2) isspace_def case_prod_beta)

lemma parse_loop_dot:
  "parse_loop val (CHR ''.'' # rest) =
     (if val \<noteq> None then Inl AssertionError
      else parse_loop (Some (JumpTarget (fst (parse_word rest valid_word))))
             (snd (parse_word rest valid_word)))"
  by (simp add: parse_loop.simps(2) isspace_def case_prod_beta)

lemma digits_not_special:
  "tok \<in> set (''-'' @ digits) \<Longrightarrow>
     \<not> isspace tok \<and> tok \<noteq> CHR ''$'' \<and> tok \<noteq> CHR ''.'' \<and> tok \<noteq> CHR ''%'' \<and> tok \<noteq> CHR '')''"
  by (auto simp: digits_def isspace_def)

lemma parse_loop_number:
  "tok \<in> set (''-'' @ digits) \<Longrightarrow> parse_loop val (tok # rest) =
     (if val \<noteq> None then Inl AssertionError
      else (case parse_number (tok # rest) of
              Inl e \<Rightarrow> Inl e
            | Inr (n, r) \<Rightarrow> parse_loop (Some (NumberLiteral n)) r))"
  using digits_not_special[of tok] by (simp add: parse_loop.simps(2))

lemma valid_word_not_special:
  "tok \<in> set valid_word \<Longrightarrow>
     \<not> isspace tok \<and> tok \<noteq> CHR ''$'' \<and> tok \<noteq> CHR ''.'' \<and> tok \<noteq> CHR ''%'' \<and> tok \<noteq> CHR '')''
     \<and> tok \<noteq> CHR ''-'' \<and> tok \<noteq> CHR ''(''"
  by (auto simp: valid_word_def ascii_letters_def digits_def isspace_def)

lemma parse_loop_word:
  "tok \<in> set valid_word \<Longrightarrow> tok \<notin> set digits \<Longrightarrow> parse_loop val (tok # rest) =
     (if val \<noteq> None then Inl AssertionError
      else parse_loop (Some (GlobalSymbol (fst (parse_word (tok # rest) valid_word))))
             (snd (parse_word (tok # rest) valid_word)))"
  using valid_word_not_special[of tok] by (simp add: parse_loop.simps(2) case_prod_beta)


lemma parse_loop_percent:
  "parse_loop val (CHR ''%'' # rest) =
     (if val \<noteq> None then Inl AssertionError
      else (case parse_word rest valid_word of
        (macro_name, r1) \<Rightarrow>
          (if macro_name \<noteq> ''hi'' \<and> macro_name \<noteq> ''lo'' then Inl AssertionError
           else (case expect ''('' r1 of
              Inl e \<Rightarrow> Inl e
            | Inr (_, r2) \<Rightarrow>
                (case parse_loop None r2 of
                   Inl e \<Rightarrow> Inl e
                 | Inr (None, r3) \<Rightarrow> Inl AssertionError
                 | Inr (Some m, r3) \<Rightarrow>
                     (case expect '')'' r3 of
                        Inl e \<Rightarrow> Inl e
                      | Inr (_, r4) \<Rightarrow> parse_loop (Some (Macro macro_name m)) r4))))))"
  by (simp add: parse_loop.simps(2) isspace_def)

lemma parse_loop_lparen:
  "parse_loop val (CHR ''('' # rest) =
     (if \<not> (case val of None \<Rightarrow> True | Some v \<Rightarrow> is_NumberLiteral v \<or> is_Macro v)
        then Inl AssertionError
      else (case parse_loop None rest of
              Inl e \<Rightarrow> Inl e
            | Inr (None, r2) \<Rightarrow> Inl AssertionError
            | Inr (Some rhs, r2) \<Rightarrow>
                (case expect '')'' r2 of
                   Inl e \<Rightarrow> Inl e
                 | Inr (_, r3) \<Rightarrow> parse_loop (Some (AddressMode val rhs)) r3)))"
  by (simp add: parse_loop.simps(2) isspace_def digits_def expect_def)

lemma operator_not_special:
  "tok \<in> set ''>+&'' \<Longrightarrow>
     \<not> isspace tok \<and> tok \<noteq> CHR ''$'' \<and> tok \<noteq> CHR ''.'' \<and> tok \<noteq> CHR ''%'' \<and> tok \<noteq> CHR '')''
     \<and> tok \<notin> set (''-'' @ digits) \<and> tok \<noteq> CHR ''('' \<and> tok \<notin> set valid_word"
  by (auto simp: valid_word_def ascii_letters_def digits_def isspace_def)

lemma parse_loop_operator:
  "tok \<in> set ''>+&'' \<Longrightarrow> parse_loop val (tok # rest) =
     (case val of
        None \<Rightarrow> Inl AssertionError
      | Some v \<Rightarrow>
          (if \<not> (is_NumberLiteral v \<or> is_GlobalSymbol v) then Inl AssertionError
           else (case parse_operator tok (tok # rest) of
              Inl e \<Rightarrow> Inl e
            | Inr (oper, r1) \<Rightarrow>
                (case parse_loop None r1 of
                   Inl e \<Rightarrow> Inl e
                 | Inr (None, r2) \<Rightarrow> Inl AssertionError
                 | Inr (Some rhs, r2) \<Rightarrow>
                     (if is_NumberLiteral rhs then Inr (Some (BinOp oper v rhs), r2)
                      else Inl AssertionError)))))"
  using operator_not_special[of tok] by (simp add: parse_loop.simps(2))

lemma parse_loop_unknown:
  "\<not> isspace tok \<Longrightarrow> tok \<notin> set ''$.%)('' \<Longrightarrow> tok \<notin> set (''-'' @ digits) \<Longrightarrow>
   tok \<notin> set valid_word \<Longrightarrow> tok \<notin> set ''>+&'' \<Longrightarrow>
   parse_loop val (tok # rest) = Inl SystemExit"
  by (simp add: parse_loop.simps(2))

text \<open>A step that starts with a value and does not open an address mode keeps a value.\<close>
lemma parse_loop_step_Some:
  assumes "val \<noteq> None" "\<not> isspace tok" "tok \<noteq> CHR ''(''"
    and "parse_loop val (tok # rest) = Inr (res, ys)"
  shows "res \<noteq> None"
proof -
  consider (special) "tok \<in> set ''$.%''" | (rparen) "tok = CHR '')''"
    | (number) "tok \<in> set (''-'' @ digits)"
    | (word) "tok \<in> set valid_word" "tok \<notin> set digits"
    | (oper) "tok \<in> set ''>+&''"
    | (unknown) "tok \<notin> set ''$.%)(''" "tok \<notin> set (''-'' @ digits)"
        "tok \<notin> set valid_word" "tok \<notin> set ''>+&''"
    using assms(3) by auto
  then show ?thesis
  proof cases
    case special
    then show ?thesis using assms(1,4)
      by (auto simp: parse_loop_dollar parse_loop_dot parse_loop_percent)
  next
    case rparen
    then show ?thesis using assms(1,4) by (auto simp: parse_loop_rparen)
  next
    case number
    then show ?thesis using assms(1,4) by (simp add: parse_loop_number)
  next
    case word
    then show ?thesis using assms(1,4) by (simp add: parse_loop_word)
  next
    case oper
    from assms(4) show ?thesis unfolding parse_loop_operator[OF oper]
      by (auto split: option.splits if_splits sum.splits prod.splits)
  next
    case unknown
    then show ?thesis using assms(2,4) by (simp add: parse_loop_unknown)
  qed
qed

lemma parse_loop_Some:
  "val \<noteq> None \<Longrightarrow> parse_loop val xs = Inr (res, ys) \<Longrightarrow> res \<noteq> None"
proof (induction val xs arbitrary: res ys rule: parse_loop.induct)
  case 1
  then show ?case by auto
next
  case (2 val tok rest)
  note P = "2.prems"(2)
  note V = "2.prems"(1)
  show ?case
  proof (cases "isspace tok")
    case True
    then show ?thesis using P V "2.IH"(1) by (simp add: parse_loop_space)
  next
    case ns: False
    show ?thesis
    proof (cases "tok = CHR ''(''")
      case True
      have c: "tok \<noteq> CHR ''$''" "tok \<noteq> CHR ''.''" "tok \<noteq> CHR ''%''" "tok \<noteq> CHR '')''"
          "tok \<notin> set (''-'' @ digits)"
        using True by (simp_all add: digits_def)
      from P True obtain b2 m b3 where
        t: "\<not> \<not> (case val of None \<Rightarrow> True | Some v \<Rightarrow> is_NumberLiteral v \<or> is_Macro v)"
        and r1: "parse_loop None rest = Inr b2"
        and fm: "fst b2 = Some m"
        and e2: "expect '')'' (snd b2) = Inr b3"
        and r2: "parse_loop (Some (AddressMode val m)) (snd b3) = Inr (res, ys)"
        unfolding True parse_loop_lparen
        by (auto simp: case_prod_beta split: if_splits sum.splits option.splits)
      have e1: "expect ''('' (tok # rest) = Inr (tok, rest)"
        using True by (simp add: expect_def)
      have nn: "Some (AddressMode val m) \<noteq> None" by simp
      have r1': "parse_loop None (snd (tok, rest)) = Inr b2" using r1 by simp
      show ?thesis
        by (rule "2.IH"(8)[OF ns c True t e1 prod.collapse r1' prod.collapse fm e2 prod.collapse nn r2])
    next
      case False
      then show ?thesis using parse_loop_step_Some[OF V ns False P] by simp
    qed
  qed
qed

lemma parse_loop_Some_not_None [simp]: "parse_loop (Some v) xs \<noteq> Inr (None, ys)"
  using parse_loop_Some[of "Some v" xs None ys] by auto

lemma parse_loop_None_iff:
  "parse_loop None xs = Inr (None, ys) \<longleftrightarrow>
     (ys = dropWhile isspace xs \<and> (ys = [] \<or> hd ys = CHR '')''))"
proof (induction xs)
  case Nil
  show ?case by auto
next
  case (Cons tok rest)
  show ?case
  proof (cases "isspace tok")
    case True
    then show ?thesis using Cons by (simp add: parse_loop_space)
  next
    case ns: False
    show ?thesis
    proof (cases "tok = CHR '')''")
      case True
      then show ?thesis using ns by (auto simp: parse_loop_rparen)
    next
      case nr: False
      have "parse_loop None (tok # rest) \<noteq> Inr (None, ys)"
      proof
        assume A: "parse_loop None (tok # rest) = Inr (None, ys)"
        consider (dollar) "tok = CHR ''$''" | (dot) "tok = CHR ''.''" | (percent) "tok = CHR ''%''"
          | (lparen) "tok = CHR ''(''"
          | (number) "tok \<in> set (''-'' @ digits)"
          | (word) "tok \<in> set valid_word" "tok \<notin> set digits"
          | (oper) "tok \<in> set ''>+&''"
          | (unknown) "tok \<notin> set ''$.%)(''" "tok \<notin> set (''-'' @ digits)"
              "tok \<notin> set valid_word" "tok \<notin> set ''>+&''"
          using nr by auto
        then show False
        proof cases
          case dollar
          with A show False by (simp add: parse_loop_dollar)
        next
          case dot
          with A show False by (simp add: parse_loop_dot)
        next
          case percent
          from A show False unfolding percent parse_loop_percent
            by (auto split: prod.splits if_splits sum.splits option.splits)
        next
          case lparen
          from A show False unfolding lparen parse_loop_lparen
            by (auto split: prod.splits if_splits sum.splits option.splits)
        next
          case number
          from A show False unfolding parse_loop_number[OF number]
            by (auto split: prod.splits if_splits sum.splits option.splits)
        next
          case word
          from A show False unfolding parse_loop_word[OF word]
            by simp
        next
          case oper
          from A show False unfolding parse_loop_operator[OF oper] by simp
        next
          case unknown
          with A ns show False by (simp add: parse_loop_unknown)
        qed
      qed
      then show ?thesis using ns nr by auto
    qed
  qed
qed

text \<open>
  Claim C4, as amended. \<open>parse_arg\<close> returns \<open>None\<close> exactly when the operand
  string, after its leading whitespace, is empty or starts with a closing parenthesis:
  whitespace is skipped and \<open>)\<close> ends the current invocation, both before any value
  has been parsed.
\<close>

theorem parse_arg_None_iff:
  "parse_arg s = Inr None \<longleftrightarrow>
     (dropWhile isspace s = [] \<or> hd (dropWhile isspace s) = CHR '')'')"
proof -
  have "parse_arg s = Inr None \<longleftrightarrow> (\<exists>ys. parse_loop None s = Inr (None, ys))"
    by (cases "parse_loop None s") (auto simp: parse_arg_def parse_arg_elems_def)
  also have "\<dots> \<longleftrightarrow> (dropWhile isspace s = [] \<or> hd (dropWhile isspace s) = CHR '')'')"
    unfolding parse_loop_None_iff by simp
  finally show ?thesis .
qed

text \<open>
  Claim C4 as written (\<open>None\<close> if and only if the string is empty) fails: the
  non-empty string \<open>)\<close> is parsed to \<open>None\<close>.
\<close>

theorem parse_arg_rparen_counterexample: "parse_arg '')'' = Inr None \<and> '')'' \<noteq> []"
  by (simp add: parse_arg_def parse_arg_elems_def parse_loop_rparen)

theorem parse_arg_None_iff_witness:
  "parse_arg '' )'' = Inr None"
  using parse_arg_None_iff[of "'' )''"] by (simp add: isspace_def)

section \<open>Functions, blocks and the block builder\<close>

text \<open>
  A function body is a list of instructions and labels. The first part of
  \<open>do_flow_analysis\<close> cuts it into blocks: a label closes the pending block, and a
  branch instruction takes the next element of the body with it (its delay slot) before
  the pending block is closed. The element taken for the delay slot is not inspected, so
  a block holds body items: it may be a label as well as an instruction.
\<close>

datatype instruction = Instruction (mnemonic: string) (args: "argument list")

datatype label = Label (label_name: string)

datatype item = Instr instruction | Lab label

datatype func = Function (func_name: string) (body: "item list")

record block =
  index :: nat
  label :: "label option"
  instructions :: "item list"

definition is_branch_instruction :: "instruction \<Rightarrow> bool" where
  "is_branch_instruction i \<longleftrightarrow>
     mnemonic i \<in> set [''b'', ''beq'', ''bne'', ''bgez'', ''bgtz'', ''blez'', ''bltz'']"

record builder =
  blocks :: "block list"
  curr_index :: nat
  curr_label :: "label option"
  curr_instructions :: "item list"

definition new_block :: "builder \<Rightarrow> builder" where
  "new_block st =
     (if length (curr_instructions st) = 0 then st
      else st\<lparr>blocks := blocks st @
                   [\<lparr>index = curr_index st, label = curr_label st,
                     instructions = curr_instructions st\<rparr>],
               curr_label := None,
               curr_index := curr_index st + 1,
               curr_instructions := []\<rparr>)"

definition take_instruction :: "item \<Rightarrow> builder \<Rightarrow> builder" where
  "take_instruction instruction st =
     st\<lparr>curr_instructions := curr_instructions st @ [instruction]\<rparr>"

fun build_loop :: "item list \<Rightarrow> builder \<Rightarrow> error + builder" where
  "build_loop [] st = Inr st"
| "build_loop (Lab l # rest) st = build_loop rest ((new_block st)\<lparr>curr_label := Some l\<rparr>)"
| "build_loop (Instr i # rest) st =
     (if is_branch_instruction i then
        (case rest of
           [] \<Rightarrow> Inl StopIteration
         | delay # rest' \<Rightarrow>
             build_loop rest' (new_block (take_instruction delay (take_instruction (Instr i) st))))
      else build_loop rest (take_instruction (Instr i) st))"

definition build_blocks :: "func \<Rightarrow> error + block list" where
  "build_blocks function =
     (case build_loop (body function)
             \<lparr>blocks = [], curr_index = 0, curr_label = None, curr_instructions = []\<rparr> of
        Inl e \<Rightarrow> Inl e
      | Inr st \<Rightarrow> Inr (blocks (new_block st)))"

fun is_branch_item :: "item \<Rightarrow> bool" where
  "is_branch_item (Instr i) = is_branch_instruction i"
| "is_branch_item (Lab l) = False"

fun is_instruction_item :: "item \<Rightarrow> bool" where
  "is_instruction_item (Instr i) = True"
| "is_instruction_item (Lab l) = False"

definition delay_slot_closed :: "item list \<Rightarrow> bool" where
  "delay_slot_closed xs \<longleftrightarrow>
     (\<forall>i < length xs. is_branch_item (xs ! i) \<longrightarrow>
        i + 2 = length xs \<and> is_instruction_item (xs ! (i + 1)))"

definition delay_slots_filled :: "item list \<Rightarrow> bool" where
  "delay_slots_filled xs \<longleftrightarrow>
     (\<forall>i < length xs. is_branch_item (xs ! i) \<longrightarrow>
        i + 1 < length xs \<and> is_instruction_item (xs ! (i + 1)) \<and> \<not> is_branch_item (xs ! (i + 1)))"

definition builder_inv :: "builder \<Rightarrow> bool" where
  "builder_inv st \<longleftrightarrow>
     (\<forall>blk \<in> set (blocks st). delay_slot_closed (instructions blk)) \<and>
     (\<forall>x \<in> set (curr_instructions st). \<not> is_branch_item x)"

lemma no_branch_closed: "\<forall>x \<in> set xs. \<not> is_branch_item x \<Longrightarrow> delay_slot_closed xs"
  by (auto simp: delay_slot_closed_def)

lemma branch_pair_closed:
  assumes "\<forall>x \<in> set xs. \<not> is_branch_item x" "is_instruction_item d" "\<not> is_branch_item d"
  shows "delay_slot_closed (xs @ [b, d])"
  unfolding delay_slot_closed_def
proof (intro allI impI)
  fix i assume i: "i < length (xs @ [b, d])" and br: "is_branch_item ((xs @ [b, d]) ! i)"
  have "i = length xs"
  proof (rule ccontr)
    assume ne: "i \<noteq> length xs"
    show False
    proof (cases "i < length xs")
      case True
      then show False using br assms(1) by (simp add: nth_append)
    next
      case False
      with ne i have "i = Suc (length xs)" by simp
      then show False using br assms(3) by (simp add: nth_append)
    qed
  qed
  then show "i + 2 = length (xs @ [b, d]) \<and> is_instruction_item ((xs @ [b, d]) ! (i + 1))"
    using assms(2) by (simp add: nth_append)
qed

lemma new_block_inv: "builder_inv st \<Longrightarrow> builder_inv (new_block st)"
  by (auto simp: builder_inv_def new_block_def no_branch_closed)

lemma new_block_label_inv: "builder_inv st \<Longrightarrow> builder_inv ((new_block st)\<lparr>curr_label := l\<rparr>)"
  using new_block_inv[of st] by (simp add: builder_inv_def)

lemma take_plain_inv:
  "builder_inv st \<Longrightarrow> \<not> is_branch_item x \<Longrightarrow> builder_inv (take_instruction x st)"
  by (auto simp: builder_inv_def take_instruction_def)

lemma take_branch_inv:
  assumes "builder_inv st" "is_instruction_item d" "\<not> is_branch_item d"
  shows "builder_inv (new_block (take_instruction d (take_instruction b st)))"
  using assms branch_pair_closed[of "curr_instructions st" d b]
  by (auto simp: builder_inv_def new_block_def take_instruction_def)

lemma delay_slots_filled_tl: "delay_slots_filled (x # xs) \<Longrightarrow> delay_slots_filled xs"
  unfolding delay_slots_filled_def by (metis Suc_less_eq add_Suc length_Cons nth_Cons_Suc)

lemma build_loop_inv:
  "delay_slots_filled xs \<Longrightarrow> builder_inv st \<Longrightarrow>
     \<exists>st'. build_loop xs st = Inr st' \<and> builder_inv st'"
proof (induction xs st rule: build_loop.induct)
  case (1 st)
  then show ?case by simp
next
  case (2 l rest st)
  from "2.IH"[OF delay_slots_filled_tl[OF "2.prems"(1)] new_block_label_inv[OF "2.prems"(2)]]
  show ?case by simp
next
  case (3 i rest st)
  show ?case
  proof (cases "is_branch_instruction i")
    case True
    from "3.prems"(1) True obtain d rest' where r: "rest = d # rest'"
      and d: "is_instruction_item d" "\<not> is_branch_item d"
      unfolding delay_slots_filled_def by (cases rest) force+
    have f: "delay_slots_filled rest'"
      using "3.prems"(1) r by (blast dest: delay_slots_filled_tl)
    from "3.IH"(1)[OF True r f take_branch_inv[OF "3.prems"(2) d]] True r
    show ?thesis by simp
  next
    case False
    from "3.IH"(2)[OF False delay_slots_filled_tl[OF "3.prems"(1)]
        take_plain_inv[OF "3.prems"(2)]] False
    show ?thesis by simp
  qed
qed

text \<open>
  Claim C3, as amended. When every branch instruction of the body is directly followed by
  an instruction that is not itself a branch, the block builder returns, and in every
  block it produces each branch instruction is followed by exactly one more instruction,
  which ends the block.
\<close>

theorem build_blocks_delay_slot:
  assumes "delay_slots_filled (body function)"
  shows "\<exists>bs. build_blocks function = Inr bs \<and>
              (\<forall>blk \<in> set bs. delay_slot_closed (instructions blk))"
proof -
  let ?init = "\<lparr>blocks = [], curr_index = 0, curr_label = None, curr_instructions = []\<rparr>"
  have "builder_inv ?init" by (simp add: builder_inv_def)
  from build_loop_inv[OF assms this] obtain st' where
    b: "build_loop (body function) ?init = Inr st'" and i: "builder_inv st'" by blast
  from new_block_inv[OF i] b show ?thesis
    by (simp add: build_blocks_def builder_inv_def)
qed

text \<open>
  Claim C3 as written, for every function body, fails: a branch standing in the delay slot
  of another branch is the last element of its block.
\<close>

definition branch_in_delay_slot :: func where
  "branch_in_delay_slot =
     Function ''f'' [Instr (Instruction ''b'' [JumpTarget ''L1'']),
                     Instr (Instruction ''b'' [JumpTarget ''L1''])]"

theorem build_blocks_delay_slot_counterexample:
  "build_blocks branch_in_delay_slot =
     Inr [\<lparr>index = 0, label = None,
           instructions = [Instr (Instruction ''b'' [JumpTarget ''L1'']),
                           Instr (Instruction ''b'' [JumpTarget ''L1''])]\<rparr>]
   \<and> \<not> delay_slot_closed [Instr (Instruction ''b'' [JumpTarget ''L1'']),
                           Instr (Instruction ''b'' [JumpTarget ''L1''])]"
proof -
  have "\<not> delay_slot_closed [Instr (Instruction ''b'' [JumpTarget ''L1'']),
                           Instr (Instruction ''b'' [JumpTarget ''L1''])]"
    unfolding delay_slot_closed_def
    by (rule notI, drule spec[of _ 1]) (simp add: is_branch_instruction_def)
  then show ?thesis
    by (simp add: build_blocks_def branch_in_delay_slot_def new_block_def take_instruction_def
          is_branch_instruction_def)
qed

definition delay_slot_example :: func where
  "delay_slot_example =
     Function ''f''
       [Instr (Instruction ''beq'' [Register ''a0'', Register ''a1'', JumpTarget ''L1'']),
        Instr (Instruction ''nop'' []),
        Instr (Instruction ''addiu'' [Register ''v0'', Register ''v0'', NumberLiteral 1])]"

lemma delay_slot_example_filled: "delay_slots_filled (body delay_slot_example)"
  unfolding delay_slots_filled_def delay_slot_example_def
  by (auto simp: less_Suc_eq is_branch_instruction_def)

theorem build_blocks_delay_slot_witness:
  "build_blocks delay_slot_example =
     Inr [\<lparr>index = 0, label = None,
           instructions =
             [Instr (Instruction ''beq'' [Register ''a0'', Register ''a1'', JumpTarget ''L1'']),
              Instr (Instruction ''nop'' [])]\<rparr>,
          \<lparr>index = 1, label = None,
           instructions =
             [Instr (Instruction ''addiu'' [Register ''v0'', Register ''v0'', NumberLiteral 1])]\<rparr>]
   \<and> delay_slot_closed
         [Instr (Instruction ''beq'' [Register ''a0'', Register ''a1'', JumpTarget ''L1'']),
          Instr (Instruction ''nop'' [])]
   \<and> delay_slot_closed
         [Instr (Instruction ''addiu'' [Register ''v0'', Register ''v0'', NumberLiteral 1])]"
proof -
  have e: "build_blocks delay_slot_example =
     Inr [\<lparr>index = 0, label = None,
           instructions =
             [Instr (Instruction ''beq'' [Register ''a0'', Register ''a1'', JumpTarget ''L1'']),
              Instr (Instruction ''nop'' [])]\<rparr>,
          \<lparr>index = 1, label = None,
           instructions =
             [Instr (Instruction ''addiu'' [Register ''v0'', Register ''v0'', NumberLiteral 1])]\<rparr>]"
    by (simp add: build_blocks_def delay_slot_example_def new_block_def take_instruction_def
          is_branch_instruction_def)
  from build_blocks_delay_slot[OF delay_slot_example_filled] e show ?thesis by simp
qed

section \<open>Flow analysis\<close>

text \<open>
  The second part of \<open>do_flow_analysis\<close> gives every analysed block a node. A node
  holds its successor nodes by value (the classes are frozen, so a node is built after
  its successors), which a datatype models. \<open>get_block_analysis\<close> looks the block up
  in the list of nodes made so far and otherwise calls \<open>do_block_analysis\<close>, whose
  body is the argument of the outer \<open>Option.bind\<close> below, and appends the new node
  \<^emph>\<open>after\<close> that call has returned. The recursion need not end, so the function is a
  partial function into \<open>option\<close>: \<open>None\<close> is a run that never returns (in Python,
  a recursion that only the interpreter's recursion limit stops), \<open>Some (Inl e)\<close> a
  run that raises \<open>e\<close>, \<open>Some (Inr r)\<close> a run that returns \<open>r\<close>. The list of
  nodes is shared and mutated in the source; here each call returns the new list.
\<close>

datatype node =
    BasicNode block node
  | ExitNode block
  | ConditionalNode block node node

fun node_block :: "node \<Rightarrow> block" where
  "node_block (BasicNode b _) = b"
| "node_block (ExitNode b) = b"
| "node_block (ConditionalNode b _ _) = b"

datatype flow_analysis = FlowAnalysis (nodes: "node list")

definition is_loop_edge :: "node \<Rightarrow> node \<Rightarrow> bool" where
  "is_loop_edge node edge \<longleftrightarrow> index (node_block edge) < index (node_block node)"

fun is_loop :: "node \<Rightarrow> error + bool" where
  "is_loop (BasicNode b exit_edge) = Inr (is_loop_edge (BasicNode b exit_edge) exit_edge)"
| "is_loop (ConditionalNode b conditional_edge fallthrough_edge) =
     Inr (is_loop_edge (ConditionalNode b conditional_edge fallthrough_edge) conditional_edge)"
| "is_loop (ExitNode b) = Inl AttributeError"

definition find_block_by_label :: "block list \<Rightarrow> string \<Rightarrow> block option" where
  "find_block_by_label blks target =
     find (\<lambda>block. case label block of None \<Rightarrow> False | Some l \<Rightarrow> label_name l = target) blks"

fun branch_instructions :: "item list \<Rightarrow> error + instruction list" where
  "branch_instructions [] = Inr []"
| "branch_instructions (Lab l # rest) = Inl AttributeError"
| "branch_instructions (Instr i # rest) =
     (case branch_instructions rest of
        Inl e \<Rightarrow> Inl e
      | Inr branches \<Rightarrow> Inr (if is_branch_instruction i then i # branches else branches))"

definition branch_target :: "instruction \<Rightarrow> error + string" where
  "branch_target branch =
     (if args branch = [] then Inl IndexError
      else (case last (args branch) of
              JumpTarget target \<Rightarrow> Inr target
            | _ \<Rightarrow> Inl AssertionError))"

partial_function (option) get_block_analysis ::
  "block list \<Rightarrow> block \<Rightarrow> node list \<Rightarrow> (error + node \<times> node list) option" where
  "get_block_analysis blks block nds =
     (case find (\<lambda>node. node_block node = block) nds of
        Some node \<Rightarrow> Some (Inr (node, nds))
      | None \<Rightarrow>
          Option.bind
            (case branch_instructions (instructions block) of
               Inl e \<Rightarrow> Some (Inl e)
             | Inr branches \<Rightarrow>
                 (if length branches = 0 then
                    (if index block + 1 < length blks then
                       Option.bind
                         (get_block_analysis blks (blks ! (index block + 1)) nds)
                         (\<lambda>r. case r of
                                Inl e \<Rightarrow> Some (Inl e)
                              | Inr (exit_node, nds1) \<Rightarrow>
                                  Some (Inr (BasicNode block exit_node, nds1)))
                     else Some (Inl IndexError))
                  else if length branches = 1 then
                    (case branch_target (branches ! 0) of
                       Inl e \<Rightarrow> Some (Inl e)
                     | Inr target \<Rightarrow>
                         (case find_block_by_label blks target of
                            None \<Rightarrow> Some (Inl AssertionError)
                          | Some branch_block \<Rightarrow>
                              Option.bind (get_block_analysis blks branch_block nds)
                                (\<lambda>r. case r of
                                   Inl e \<Rightarrow> Some (Inl e)
                                 | Inr (branch_node, nds1) \<Rightarrow>
                                     (if mnemonic (branches ! 0) = ''b'' then
                                        Some (Inr (BasicNode block branch_node, nds1))
                                      else if \<not> index block + 1 < length blks then
                                        Some (Inl AssertionError)
                                      else
                                        Option.bind
                                          (get_block_analysis blks
                                             (blks ! (index block + 1)) nds1)
                                          (\<lambda>r2. case r2 of
                                             Inl e \<Rightarrow> Some (Inl e)
                                           | Inr (fallthrough_node, nds2) \<Rightarrow>
                                               Some (Inr (ConditionalNode block branch_node
                                                            fallthrough_node, nds2)))))))
                  else Some (Inl SystemExit)))
            (\<lambda>r. case r of
               Inl e \<Rightarrow> Some (Inl e)
             | Inr (node, nds1) \<Rightarrow> Some (Inr (node, nds1 @ [node]))))"

declare get_block_analysis.simps [code]

definition do_flow_analysis :: "func \<Rightarrow> (error + flow_analysis) option" where
  "do_flow_analysis function =
     (case build_blocks function of
        Inl e \<Rightarrow> Some (Inl e)
      | Inr blks \<Rightarrow>
          (if blks = [] then Some (Inl IndexError)
           else
             Option.bind (get_block_analysis blks (blks ! 0) [ExitNode (last blks)])
               (\<lambda>r. case r of
                  Inl e \<Rightarrow> Some (Inl e)
                | Inr (_, nds1) \<Rightarrow>
                    Some (Inr (FlowAnalysis (sort_key (\<lambda>node. index (node_block node)) nds1))))))"

subsection \<open>A loop: the analysis of a block that branches to itself\<close>

text \<open>
  The function below is \<open>.L1: b .L1; nop; jr $ra; nop\<close>. Its first block branches to
  itself, and it is not the last block, so it has no node when its own analysis asks for
  the node of its branch target.
\<close>

definition loop_example :: func where
  "loop_example =
     Function ''f''
       [Lab (Label ''L1''),
        Instr (Instruction ''b'' [JumpTarget ''L1'']),
        Instr (Instruction ''nop'' []),
        Instr (Instruction ''jr'' [Register ''ra'']),
        Instr (Instruction ''nop'' [])]"

definition single_block_example :: func where
  "single_block_example =
     Function ''f''
       [Lab (Label ''L1''),
        Instr (Instruction ''b'' [JumpTarget ''L1'']),
        Instr (Instruction ''nop'' [])]"

definition back_edge_example :: func where
  "back_edge_example =
     Function ''f''
       [Instr (Instruction ''beq'' [Register ''a0'', Register ''a1'', JumpTarget ''L2'']),
        Instr (Instruction ''nop'' []),
        Lab (Label ''L1''),
        Instr (Instruction ''b'' [JumpTarget ''L3'']),
        Instr (Instruction ''nop'' []),
        Lab (Label ''L2''),
        Instr (Instruction ''b'' [JumpTarget ''L1'']),
        Instr (Instruction ''nop'' []),
        Lab (Label ''L3''),
        Instr (Instruction ''jr'' [Register ''ra'']),
        Instr (Instruction ''nop'' [])]"

definition loop_block :: block where
  "loop_block = \<lparr>index = 0, label = Some (Label ''L1''),
       instructions = [Instr (Instruction ''b'' [JumpTarget ''L1'']),
                       Instr (Instruction ''nop'' [])]\<rparr>"

definition return_block :: block where
  "return_block = \<lparr>index = 1, label = None,
       instructions = [Instr (Instruction ''jr'' [Register ''ra'']),
                       Instr (Instruction ''nop'' [])]\<rparr>"

lemma build_blocks_loop_example:
  "build_blocks loop_example = Inr [loop_block, return_block]"
  by (simp add: build_blocks_def loop_example_def new_block_def take_instruction_def
        is_branch_instruction_def loop_block_def return_block_def)

lemma get_block_analysis_loop_block_aux:
  assumes "get_block_analysis blks blk nds = Some y"
  shows "\<not> (blks = [loop_block, return_block] \<and> blk = loop_block \<and>
            nds = [ExitNode return_block])"
proof (rule get_block_analysis.raw_induct[OF _ assms,
      where P = "\<lambda>blks blk nds y. \<not> (blks = [loop_block, return_block] \<and> blk = loop_block \<and>
            nds = [ExitNode return_block])"], goal_cases)
  case (1 f blks blk nds y)
  show ?case
  proof
    assume eq: "blks = [loop_block, return_block] \<and> blk = loop_block \<and>
                nds = [ExitNode return_block]"
    have "f [loop_block, return_block] loop_block [ExitNode return_block] \<noteq> None"
      using 1(2) unfolding conjunct1[OF eq] conjunct1[OF conjunct2[OF eq]]
        conjunct2[OF conjunct2[OF eq]]
      by (auto simp: loop_block_def return_block_def find_block_by_label_def branch_target_def
            is_branch_instruction_def split: Option.bind_splits)
    then obtain r where
      "f [loop_block, return_block] loop_block [ExitNode return_block] = Some r" by auto
    from 1(1)[OF this] show False by simp
  qed
qed

lemma get_block_analysis_loop_block:
  "get_block_analysis [loop_block, return_block] loop_block [ExitNode return_block] = None"
  using get_block_analysis_loop_block_aux
  by (cases "get_block_analysis [loop_block, return_block] loop_block
      [ExitNode return_block]") auto

text \<open>
  Claim C1 at the failing input: on the loop above \<open>do_flow_analysis\<close> does not return.
  The node of the block being analysed is appended only after its successors are
  analysed, so the lookup that is meant to stop the recursion on a cycle never finds it.
\<close>

theorem do_flow_analysis_loop_diverges: "do_flow_analysis loop_example = None"
  by (simp add: do_flow_analysis_def build_blocks_loop_example get_block_analysis_loop_block)

subsection \<open>Nodes of unconditional branches\<close>

text \<open>
  What the analysis gives a block whose only branch instruction is an unconditional
  \<open>b .L1\<close>, when it returns. In \<open>.L1: b .L1; nop\<close> the branch lies in the last
  block, which is given the exit node before any block is analysed.
\<close>

definition single_block :: block where
  "single_block = \<lparr>index = 0, label = Some (Label ''L1''),
       instructions = [Instr (Instruction ''b'' [JumpTarget ''L1'']),
                       Instr (Instruction ''nop'' [])]\<rparr>"

lemma build_blocks_single_block_example:
  "build_blocks single_block_example = Inr [single_block]"
  by (simp add: build_blocks_def single_block_example_def new_block_def take_instruction_def
        is_branch_instruction_def single_block_def)

lemma do_flow_analysis_single_block_example:
  "do_flow_analysis single_block_example = Some (Inr (FlowAnalysis [ExitNode single_block]))"
  by (simp add: do_flow_analysis_def build_blocks_single_block_example
        get_block_analysis.simps[of _ single_block])

definition unconditional_target :: "block \<Rightarrow> string option" where
  "unconditional_target b =
     (case branch_instructions (instructions b) of
        Inl e \<Rightarrow> None
      | Inr branches \<Rightarrow>
          (if length branches = 1 \<and> mnemonic (branches ! 0) = ''b'' then
             (case branch_target (branches ! 0) of Inl e \<Rightarrow> None | Inr t \<Rightarrow> Some t)
           else None))"

lemma find_node_block: "find (\<lambda>node. node_block node = blk) nds = Some n \<Longrightarrow> node_block n = blk"
  by (auto simp: find_Some_iff)

lemma find_in_set: "find P xs = Some x \<Longrightarrow> x \<in> set xs"
  by (auto simp: find_Some_iff)

text \<open>
  The nodes in the list of a returning analysis have the shape of their blocks: the exit
  node is the node of the last block, a conditional node belongs to a block without an
  unconditional branch, and the \<open>exit_edge\<close> of the basic node of a block with an
  unconditional branch is a node of the block that the target labels. So a block with
  the single branch \<open>b .L1\<close> that is analysed and is not the last block gets a
  \<open>BasicNode\<close>, whose \<open>is_loop()\<close> is true exactly when the block labelled
  \<open>L1\<close> has a strictly lower index.
\<close>

fun node_shape :: "block list \<Rightarrow> node \<Rightarrow> bool" where
  "node_shape blks (BasicNode b e) =
     (case unconditional_target b of
        None \<Rightarrow> True
      | Some t \<Rightarrow> find_block_by_label blks t = Some (node_block e))"
| "node_shape blks (ExitNode b) = (b = last blks)"
| "node_shape blks (ConditionalNode b c f) = (unconditional_target b = None)"

lemma get_block_analysis_shape:
  assumes "get_block_analysis blks blk nds = Some y"
  shows "list_all (node_shape blks) nds \<longrightarrow>
           (\<forall>n nds'. y = Inr (n, nds') \<longrightarrow> node_block n = blk \<and> list_all (node_shape blks) nds')"
proof (rule get_block_analysis.raw_induct[OF _ assms,
      where P = "\<lambda>blks blk nds y. list_all (node_shape blks) nds \<longrightarrow>
           (\<forall>n nds'. y = Inr (n, nds') \<longrightarrow> node_block n = blk \<and> list_all (node_shape blks) nds')"],
    goal_cases)
  case (1 f blks blk nds y)
  show ?case
  proof (intro impI allI)
    fix n nds'
    assume inv: "list_all (node_shape blks) nds" and y: "y = Inr (n, nds')"
    note IH = 1(1)
    note step = 1(2)[unfolded y]
    show "node_block n = blk \<and> list_all (node_shape blks) nds'"
    proof (cases "find (\<lambda>node. node_block node = blk) nds")
      case (Some m)
      with step inv show ?thesis by (auto dest: find_node_block)
    next
      case None
      show ?thesis
      proof (cases "branch_instructions (instructions blk)")
        case (Inl e)
        with step None show ?thesis by simp
      next
        case (Inr branches)
        consider (zero) "length branches = 0" | (one) "length branches = 1"
          | (many) "length branches \<noteq> 0" "length branches \<noteq> 1" by blast
        then show ?thesis
        proof cases
          case zero
          from step None Inr zero obtain e nds1 where
            r: "f blks (blks ! (index blk + 1)) nds = Some (Inr (e, nds1))"
            and n: "n = BasicNode blk e" and nds': "nds' = nds1 @ [n]"
            by (auto split: if_splits Option.bind_splits sum.splits)
          from IH[OF r] inv have "list_all (node_shape blks) nds1" by simp
          moreover have "unconditional_target blk = None"
            using Inr zero by (simp add: unconditional_target_def)
          ultimately show ?thesis using n nds' by simp
        next
          case one
          from step None Inr one obtain t bb bn nds1 where
            t: "branch_target (branches ! 0) = Inr t"
            and bb: "find_block_by_label blks t = Some bb"
            and r: "f blks bb nds = Some (Inr (bn, nds1))"
            by (auto split: if_splits Option.bind_splits sum.splits option.splits)
          from IH[OF r] inv have bn: "node_block bn = bb"
            and inv1: "list_all (node_shape blks) nds1"
            by simp_all
          show ?thesis
          proof (cases "mnemonic (branches ! 0) = ''b''")
            case True
            from step None Inr one t bb r True have n: "n = BasicNode blk bn"
              and nds': "nds' = nds1 @ [n]" by auto
            have "unconditional_target blk = Some t"
              using Inr one True t by (simp add: unconditional_target_def)
            then show ?thesis using n nds' inv1 bb bn by simp
          next
            case False
            from step None Inr one t bb r False obtain fn nds2 where
              r2: "f blks (blks ! (index blk + 1)) nds1 = Some (Inr (fn, nds2))"
              and n: "n = ConditionalNode blk bn fn" and nds': "nds' = nds2 @ [n]"
              by (auto split: if_splits Option.bind_splits sum.splits)
            from IH[OF r2] inv1 have "list_all (node_shape blks) nds2" by simp
            moreover have "unconditional_target blk = None"
              using Inr one False by (simp add: unconditional_target_def)
            ultimately show ?thesis using n nds' by simp
          qed
        next
          case many
          with step None Inr show ?thesis by simp
        qed
      qed
    qed
  qed
qed

lemma analysed_unconditional_branch_node:
  assumes "do_flow_analysis function = Some (Inr fa)"
    and "build_blocks function = Inr blks"
    and "n \<in> set (nodes fa)" and "node_block n = b" and "b \<noteq> last blks"
    and "unconditional_target b = Some t"
  shows "\<exists>e. n = BasicNode b e \<and> find_block_by_label blks t = Some (node_block e) \<and>
             is_loop n = Inr (index (node_block e) < index b)"
proof -
  from assms(1,2) obtain m nds1 where
    g: "get_block_analysis blks (blks ! 0) [ExitNode (last blks)] = Some (Inr (m, nds1))"
    and fa: "fa = FlowAnalysis (sort_key (\<lambda>node. index (node_block node)) nds1)"
    by (auto simp: do_flow_analysis_def split: if_splits Option.bind_splits sum.splits)
  from get_block_analysis_shape[OF g] have "list_all (node_shape blks) nds1" by simp
  moreover from assms(3) fa have "n \<in> set nds1" by simp
  ultimately have s: "node_shape blks n" unfolding list_all_iff by blast
  show ?thesis
  proof (cases n)
    case (BasicNode b' e)
    with s assms(4,6) show ?thesis by (simp add: is_loop_edge_def)
  next
    case (ExitNode b')
    with s assms(4,5) show ?thesis by simp
  next
    case (ConditionalNode b' c f)
    with s assms(4,6) show ?thesis by simp
  qed
qed

text \<open>
  A function with a backward branch that closes no cycle, on which the analysis returns:
  \<open>beq $a0, $a1, .L2; nop; .L1: b .L3; nop; .L2: b .L1; nop; .L3: jr $ra; nop\<close>.
\<close>

definition entry_block :: block where
  "entry_block = \<lparr>index = 0, label = None,
     instructions =
       [Instr (Instruction ''beq'' [Register ''a0'', Register ''a1'', JumpTarget ''L2'']),
        Instr (Instruction ''nop'' [])]\<rparr>"

definition forward_block :: block where
  "forward_block = \<lparr>index = 1, label = Some (Label ''L1''),
     instructions = [Instr (Instruction ''b'' [JumpTarget ''L3'']),
                     Instr (Instruction ''nop'' [])]\<rparr>"

definition backward_block :: block where
  "backward_block = \<lparr>index = 2, label = Some (Label ''L2''),
     instructions = [Instr (Instruction ''b'' [JumpTarget ''L1'']),
                     Instr (Instruction ''nop'' [])]\<rparr>"

definition final_block :: block where
  "final_block = \<lparr>index = 3, label = Some (Label ''L3''),
     instructions = [Instr (Instruction ''jr'' [Register ''ra'']),
                     Instr (Instruction ''nop'' [])]\<rparr>"

lemma build_blocks_back_edge_example:
  "build_blocks back_edge_example = Inr [entry_block, forward_block, backward_block, final_block]"
  by (simp add: build_blocks_def back_edge_example_def new_block_def take_instruction_def
        is_branch_instruction_def entry_block_def forward_block_def backward_block_def
        final_block_def)

definition forward_node :: node where
  "forward_node = BasicNode forward_block (ExitNode final_block)"

definition backward_node :: node where
  "backward_node = BasicNode backward_block forward_node"

lemma back_edge_fields:
  "index entry_block = 0" "index forward_block = 1" "index backward_block = 2"
  "index final_block = 3"
  "label entry_block = None" "label forward_block = Some (Label ''L1'')"
  "label backward_block = Some (Label ''L2'')" "label final_block = Some (Label ''L3'')"
  "instructions entry_block =
     [Instr (Instruction ''beq'' [Register ''a0'', Register ''a1'', JumpTarget ''L2'']),
      Instr (Instruction ''nop'' [])]"
  "instructions forward_block =
     [Instr (Instruction ''b'' [JumpTarget ''L3'']), Instr (Instruction ''nop'' [])]"
  "instructions backward_block =
     [Instr (Instruction ''b'' [JumpTarget ''L1'']), Instr (Instruction ''nop'' [])]"
  "instructions final_block =
     [Instr (Instruction ''jr'' [Register ''ra'']), Instr (Instruction ''nop'' [])]"
  by (simp_all add: entry_block_def forward_block_def backward_block_def final_block_def)

lemma back_edge_distinct:
  "entry_block \<noteq> forward_block" "entry_block \<noteq> backward_block" "entry_block \<noteq> final_block" "forward_block \<noteq> entry_block" "forward_block \<noteq> backward_block" "forward_block \<noteq> final_block" "backward_block \<noteq> entry_block" "backward_block \<noteq> forward_block" "backward_block \<noteq> final_block" "final_block \<noteq> entry_block" "final_block \<noteq> forward_block" "final_block \<noteq> backward_block"
  by (simp_all add: entry_block_def forward_block_def backward_block_def final_block_def)

lemma get_block_analysis_memo:
  "find (\<lambda>node. node_block node = blk) nds = Some n \<Longrightarrow>
     get_block_analysis blks blk nds = Some (Inr (n, nds))"
  by (subst get_block_analysis.simps) simp

lemmas back_edge_eval = back_edge_fields back_edge_distinct is_branch_instruction_def
  branch_target_def find_block_by_label_def get_block_analysis_memo

lemma get_forward:
  "get_block_analysis [entry_block, forward_block, backward_block, final_block] forward_block
     [ExitNode final_block] = Some (Inr (forward_node, [ExitNode final_block, forward_node]))"
  by (subst get_block_analysis.simps) (simp add: back_edge_eval forward_node_def)

lemma get_backward:
  "get_block_analysis [entry_block, forward_block, backward_block, final_block] backward_block
     [ExitNode final_block] =
   Some (Inr (backward_node, [ExitNode final_block, forward_node, backward_node]))"
  by (subst get_block_analysis.simps)
     (simp add: back_edge_eval get_forward backward_node_def)

lemma get_entry:
  "get_block_analysis [entry_block, forward_block, backward_block, final_block] entry_block
     [ExitNode final_block] =
   Some (Inr (ConditionalNode entry_block backward_node forward_node,
              [ExitNode final_block, forward_node, backward_node,
               ConditionalNode entry_block backward_node forward_node]))"
  by (subst get_block_analysis.simps)
     (simp add: back_edge_eval get_backward backward_node_def forward_node_def)

lemma do_flow_analysis_back_edge_example:
  "do_flow_analysis back_edge_example =
     Some (Inr (FlowAnalysis [ConditionalNode entry_block backward_node forward_node,
                              forward_node, backward_node, ExitNode final_block]))"
  by (simp add: do_flow_analysis_def build_blocks_back_edge_example get_entry
        back_edge_fields forward_node_def backward_node_def)

subsection \<open>A while loop\<close>

text \<open>
  The function below is
  \<open>.L1: beq $a0, $a1, .L2; nop; addiu $a0, $a0, 1; b .L1; nop; .L2: jr $ra; nop\<close>:
  the block of \<open>b .L1\<close> is the second of three and branches back to the first.
\<close>

definition while_loop_example :: func where
  "while_loop_example =
     Function ''f''
       [Lab (Label ''L1''),
        Instr (Instruction ''beq'' [Register ''a0'', Register ''a1'', JumpTarget ''L2'']),
        Instr (Instruction ''nop'' []),
        Instr (Instruction ''addiu'' [Register ''a0'', Register ''a0'', NumberLiteral 1]),
        Instr (Instruction ''b'' [JumpTarget ''L1'']),
        Instr (Instruction ''nop'' []),
        Lab (Label ''L2''),
        Instr (Instruction ''jr'' [Register ''ra'']),
        Instr (Instruction ''nop'' [])]"

definition loop_head :: block where
  "loop_head = \<lparr>index = 0, label = Some (Label ''L1''),
     instructions =
       [Instr (Instruction ''beq'' [Register ''a0'', Register ''a1'', JumpTarget ''L2'']),
        Instr (Instruction ''nop'' [])]\<rparr>"

definition loop_body :: block where
  "loop_body = \<lparr>index = 1, label = None,
     instructions =
       [Instr (Instruction ''addiu'' [Register ''a0'', Register ''a0'', NumberLiteral 1]),
        Instr (Instruction ''b'' [JumpTarget ''L1'']),
        Instr (Instruction ''nop'' [])]\<rparr>"

definition loop_exit :: block where
  "loop_exit = \<lparr>index = 2, label = Some (Label ''L2''),
     instructions = [Instr (Instruction ''jr'' [Register ''ra'']),
                     Instr (Instruction ''nop'' [])]\<rparr>"

lemma build_blocks_while_loop_example:
  "build_blocks while_loop_example = Inr [loop_head, loop_body, loop_exit]"
  by (simp add: build_blocks_def while_loop_example_def new_block_def take_instruction_def
        is_branch_instruction_def loop_head_def loop_body_def loop_exit_def)

lemma while_loop_fields:
  "index loop_head = 0" "index loop_body = 1" "index loop_exit = 2"
  "label loop_head = Some (Label ''L1'')" "label loop_body = None"
  "label loop_exit = Some (Label ''L2'')"
  "instructions loop_head =
     [Instr (Instruction ''beq'' [Register ''a0'', Register ''a1'', JumpTarget ''L2'']),
      Instr (Instruction ''nop'' [])]"
  "instructions loop_body =
     [Instr (Instruction ''addiu'' [Register ''a0'', Register ''a0'', NumberLiteral 1]),
      Instr (Instruction ''b'' [JumpTarget ''L1'']),
      Instr (Instruction ''nop'' [])]"
  "instructions loop_exit =
     [Instr (Instruction ''jr'' [Register ''ra'']), Instr (Instruction ''nop'' [])]"
  by (simp_all add: loop_head_def loop_body_def loop_exit_def)

lemma while_loop_distinct:
  "loop_head \<noteq> loop_body" "loop_head \<noteq> loop_exit" "loop_body \<noteq> loop_head"
  "loop_body \<noteq> loop_exit" "loop_exit \<noteq> loop_head" "loop_exit \<noteq> loop_body"
  by (simp_all add: loop_head_def loop_body_def loop_exit_def)

lemmas while_loop_eval = while_loop_fields while_loop_distinct is_branch_instruction_def
  branch_target_def find_block_by_label_def

text \<open>
  What a call of \<open>get_block_analysis\<close> on the three blocks with the initial list of
  nodes can return: nothing for the two blocks of the loop, the exit node for the last.
\<close>

definition while_loop_results ::
  "block list \<Rightarrow> block \<Rightarrow> node list \<Rightarrow> (error + node \<times> node list) \<Rightarrow> bool" where
  "while_loop_results blks blk nds y \<longleftrightarrow>
     (blks = [loop_head, loop_body, loop_exit] \<and> nds = [ExitNode loop_exit] \<longrightarrow>
        blk \<noteq> loop_head \<and> blk \<noteq> loop_body \<and>
        (blk = loop_exit \<longrightarrow> y = Inr (ExitNode loop_exit, [ExitNode loop_exit])))"

lemma get_block_analysis_while_loop_aux:
  assumes "get_block_analysis blks blk nds = Some y"
  shows "while_loop_results blks blk nds y"
proof (rule get_block_analysis.raw_induct[OF _ assms, where P = while_loop_results], goal_cases)
  case (1 f blks blk nds y)
  note IH = 1(1)
  note step = 1(2)
  show ?case
    unfolding while_loop_results_def
  proof (intro impI)
    assume eq: "blks = [loop_head, loop_body, loop_exit] \<and> nds = [ExitNode loop_exit]"
    then have blks: "blks = [loop_head, loop_body, loop_exit]"
      and nds: "nds = [ExitNode loop_exit]" by simp_all
    have exit_result: "r = Inr (ExitNode loop_exit, [ExitNode loop_exit])"
      if "f [loop_head, loop_body, loop_exit] loop_exit [ExitNode loop_exit] = Some r" for r
      using IH[OF that] by (simp add: while_loop_results_def)
    have no_head: "f [loop_head, loop_body, loop_exit] loop_head [ExitNode loop_exit] \<noteq> Some r"
      for r
    proof
      assume "f [loop_head, loop_body, loop_exit] loop_head [ExitNode loop_exit] = Some r"
      from IH[OF this] show False by (simp add: while_loop_results_def)
    qed
    have no_body: "f [loop_head, loop_body, loop_exit] loop_body [ExitNode loop_exit] \<noteq> Some r"
      for r
    proof
      assume "f [loop_head, loop_body, loop_exit] loop_body [ExitNode loop_exit] = Some r"
      from IH[OF this] show False by (simp add: while_loop_results_def)
    qed
    have head: "blk \<noteq> loop_head"
    proof
      assume h: "blk = loop_head"
      from step[unfolded blks nds h] obtain r where
        r: "f [loop_head, loop_body, loop_exit] loop_exit [ExitNode loop_exit] = Some r"
        by (auto simp: while_loop_eval split: Option.bind_splits)
      from step[unfolded blks nds h] r exit_result[OF r] obtain r2 where
        "f [loop_head, loop_body, loop_exit] loop_body [ExitNode loop_exit] = Some r2"
        by (auto simp: while_loop_eval split: Option.bind_splits)
      with no_body[of r2] show False by simp
    qed
    have body: "blk \<noteq> loop_body"
    proof
      assume h: "blk = loop_body"
      from step[unfolded blks nds h] obtain r where
        "f [loop_head, loop_body, loop_exit] loop_head [ExitNode loop_exit] = Some r"
        by (auto simp: while_loop_eval split: Option.bind_splits)
      with no_head[of r] show False by simp
    qed
    have exit: "y = Inr (ExitNode loop_exit, [ExitNode loop_exit])" if "blk = loop_exit"
      using step[unfolded blks nds that] by simp
    from head body exit
    show "blk \<noteq> loop_head \<and> blk \<noteq> loop_body \<and>
        (blk = loop_exit \<longrightarrow> y = Inr (ExitNode loop_exit, [ExitNode loop_exit]))"
      by blast
  qed
qed

lemma get_block_analysis_while_loop:
  "get_block_analysis [loop_head, loop_body, loop_exit] loop_head [ExitNode loop_exit] = None"
proof (cases "get_block_analysis [loop_head, loop_body, loop_exit] loop_head
    [ExitNode loop_exit]")
  case None
  then show ?thesis .
next
  case (Some y)
  from get_block_analysis_while_loop_aux[OF Some] show ?thesis
    by (simp add: while_loop_results_def)
qed

text \<open>
  Claim C5 at the failing input: the function above holds the label \<open>.L1\<close> and the
  branch \<open>b .L1\<close>, which closes a loop, and \<open>do_flow_analysis\<close> does not return on
  it, so it produces no \<open>BasicNode\<close> whose \<open>is_loop()\<close> is true. The block of the
  branch asks for the node of the block labelled \<open>L1\<close>, whose own analysis is still
  under way and has appended no node yet: the defect of claim C1.
\<close>

theorem do_flow_analysis_while_loop_diverges: "do_flow_analysis while_loop_example = None"
  by (simp add: do_flow_analysis_def build_blocks_while_loop_example
        get_block_analysis_while_loop while_loop_fields)

section \<open>Stack-frame analysis\<close>

text \<open>
  \<open>find_stack_info\<close> walks the instructions of the block of the first node. The five
  variables of \<open>translate_to_ast\<close> it assigns are the fields of \<open>stack_info\<close>; the
  dictionary of callee-save registers is an association list in insertion order. Each
  branch of the loop body is a definition of its own: \<open>move_stack_pointer\<close> for
  \<open>addiu\<close> to \<open>$sp\<close>, \<open>save_return_address\<close> for \<open>sw\<close> of \<open>$ra\<close> and
  \<open>save_callee_save\<close> for \<open>sw\<close> of a callee-save register. An attribute of an
  operand that is not a register raises \<open>AttributeError\<close>, a missing operand
  \<open>IndexError\<close>.
\<close>

record stack_info =
  allocated_stack_size :: int
  is_leaf :: bool
  local_vars_region_bottom :: int
  return_addr_location :: int
  callee_save_reg_locations :: "(argument \<times> int) list"

fun dict_set :: "'k \<Rightarrow> 'v \<Rightarrow> ('k \<times> 'v) list \<Rightarrow> ('k \<times> 'v) list" where
  "dict_set k v [] = [(k, v)]"
| "dict_set k v ((k', v') # d) = (if k = k' then (k, v) # d else (k', v') # dict_set k v d)"

definition is_callee_save :: "string \<Rightarrow> bool" where
  "is_callee_save register_name \<longleftrightarrow>
     (case register_name of
        c1 # c2 # _ \<Rightarrow> c1 = CHR ''s'' \<and> c2 \<in> set ''01234567''
      | _ \<Rightarrow> False)"

fun register_name :: "argument \<Rightarrow> error + string" where
  "register_name (Register n) = Inr n"
| "register_name _ = Inl AttributeError"

definition move_stack_pointer :: "instruction \<Rightarrow> stack_info \<Rightarrow> error + stack_info" where
  "move_stack_pointer inst st =
     (if length (args inst) \<le> 2 then Inl IndexError
      else (case args inst ! 2 of
              NumberLiteral v \<Rightarrow> Inr (st\<lparr>allocated_stack_size := - v\<rparr>)
            | _ \<Rightarrow> Inl AssertionError))"

definition save_return_address :: "instruction \<Rightarrow> stack_info \<Rightarrow> error + stack_info" where
  "save_return_address inst st =
     (if length (args inst) \<le> 1 then Inl IndexError
      else (case args inst ! 1 of
              AddressMode lhs (Register r) \<Rightarrow>
                (if r \<noteq> ''sp'' then Inl AssertionError
                 else (case lhs of
                         None \<Rightarrow> Inr (st\<lparr>is_leaf := False, return_addr_location := 0\<rparr>)
                       | Some (NumberLiteral v) \<Rightarrow>
                           Inr (st\<lparr>is_leaf := False, return_addr_location := v\<rparr>)
                       | Some _ \<Rightarrow> Inl AssertionError))
            | _ \<Rightarrow> Inl AssertionError))"

definition save_callee_save :: "instruction \<Rightarrow> stack_info \<Rightarrow> error + stack_info" where
  "save_callee_save inst st =
     (if length (args inst) \<le> 1 then Inl IndexError
      else (case args inst ! 1 of
              AddressMode lhs (Register r) \<Rightarrow>
                (if r \<noteq> ''sp'' then Inr st
                 else (case lhs of
                         None \<Rightarrow>
                           Inr (st\<lparr>callee_save_reg_locations :=
                                  dict_set (args inst ! 0) 0 (callee_save_reg_locations st)\<rparr>)
                       | Some (NumberLiteral v) \<Rightarrow>
                           Inr (st\<lparr>callee_save_reg_locations :=
                                  dict_set (args inst ! 0) v (callee_save_reg_locations st)\<rparr>)
                       | Some _ \<Rightarrow> Inl AssertionError))
            | _ \<Rightarrow> Inr st))"

fun stack_step :: "item \<Rightarrow> stack_info \<Rightarrow> error + stack_info" where
  "stack_step (Lab l) st = Inl AttributeError"
| "stack_step (Instr inst) st =
     (if args inst = [] then Inr st
      else if mnemonic inst = ''addiu'' then
        (case register_name (args inst ! 0) of
           Inl e \<Rightarrow> Inl e
         | Inr destination \<Rightarrow>
             (if destination = ''sp'' then move_stack_pointer inst st else Inr st))
      else if mnemonic inst = ''sw'' then
        (case register_name (args inst ! 0) of
           Inl e \<Rightarrow> Inl e
         | Inr destination \<Rightarrow>
             (if destination = ''ra'' then save_return_address inst st
              else if is_callee_save destination then save_callee_save inst st
              else Inr st))
      else Inr st)"

fun stack_loop :: "item list \<Rightarrow> stack_info \<Rightarrow> error + stack_info" where
  "stack_loop [] st = Inr st"
| "stack_loop (inst # rest) st =
     (case stack_step inst st of Inl e \<Rightarrow> Inl e | Inr st1 \<Rightarrow> stack_loop rest st1)"

definition derive_local_vars_region_bottom :: "stack_info \<Rightarrow> stack_info" where
  "derive_local_vars_region_bottom st =
     (if is_leaf st \<and> callee_save_reg_locations st \<noteq> [] then
        st\<lparr>local_vars_region_bottom :=
             Max (set (map snd (callee_save_reg_locations st))) + 4\<rparr>
      else if is_leaf st then st\<lparr>local_vars_region_bottom := 0\<rparr>
      else st\<lparr>local_vars_region_bottom := return_addr_location st + 4\<rparr>)"

definition initial_stack_info :: stack_info where
  "initial_stack_info =
     \<lparr>allocated_stack_size = 0, is_leaf = True, local_vars_region_bottom = 0,
      return_addr_location = 0, callee_save_reg_locations = []\<rparr>"

definition find_stack_info :: "flow_analysis \<Rightarrow> error + stack_info" where
  "find_stack_info flow_analysis =
     (case nodes flow_analysis of
        [] \<Rightarrow> Inl IndexError
      | start_node # _ \<Rightarrow>
          (case stack_loop (instructions (node_block start_node)) initial_stack_info of
             Inl e \<Rightarrow> Inl e
           | Inr st \<Rightarrow> Inr (derive_local_vars_region_bottom st)))"

definition in_local_var_region :: "stack_info \<Rightarrow> int \<Rightarrow> bool" where
  "in_local_var_region st location \<longleftrightarrow>
     local_vars_region_bottom st \<le> location \<and> location < allocated_stack_size st"

definition prologue_example :: flow_analysis where
  "prologue_example =
     FlowAnalysis [ExitNode \<lparr>index = 0, label = None, instructions =
       [Instr (Instruction ''addiu'' [Register ''sp'', Register ''sp'', NumberLiteral (- 32)]),
        Instr (Instruction ''sw''
          [Register ''ra'', AddressMode (Some (NumberLiteral 28)) (Register ''sp'')]),
        Instr (Instruction ''sw''
          [Register ''s0'', AddressMode (Some (NumberLiteral 24)) (Register ''sp'')])]\<rparr>]"

text \<open>
  The adjustment of the stack pointer that an item makes: the negated immediate of an
  \<open>addiu\<close> whose first operand is \<open>$sp\<close>.
\<close>

fun sp_adjustment :: "item \<Rightarrow> int option" where
  "sp_adjustment (Instr (Instruction m (Register r # _ # NumberLiteral v # _))) =
     (if m = ''addiu'' \<and> r = ''sp'' then Some (- v) else None)"
| "sp_adjustment _ = None"

lemma stack_step_size:
  assumes "stack_step x st = Inr st1"
  shows "allocated_stack_size st1 =
           (case sp_adjustment x of None \<Rightarrow> allocated_stack_size st | Some n \<Rightarrow> n)"
proof (cases x)
  case (Lab l)
  with assms show ?thesis by simp
next
  case (Instr inst)
  obtain m as where inst: "inst = Instruction m as" by (cases inst)
  show ?thesis
  proof (cases "m = ''addiu''")
    case True
    show ?thesis
    proof (cases as)
      case Nil
      with assms Instr inst show ?thesis by simp
    next
      case (Cons a0 as1)
      show ?thesis
      proof (cases "a0 = Register ''sp''")
        case sp: True
        from assms Instr inst True Cons sp obtain a1 v as3 where
          "as1 = a1 # NumberLiteral v # as3" "st1 = st\<lparr>allocated_stack_size := - v\<rparr>"
          by (cases as1; cases "tl as1"; cases "hd (tl as1)")
             (auto simp: move_stack_pointer_def)
        with Instr inst True Cons sp show ?thesis by simp
      next
        case False
        with assms Instr inst True Cons have "st1 = st"
          by (cases a0) (auto split: if_splits)
        moreover have "sp_adjustment x = None"
          using Instr inst Cons False
          by (cases a0; cases as1; cases "tl as1"; cases "hd (tl as1)") auto
        ultimately show ?thesis by simp
      qed
    qed
  next
    case False
    have n: "sp_adjustment x = None"
      using Instr inst False
      by (cases as; cases "hd as"; cases "tl as"; cases "tl (tl as)"; cases "hd (tl (tl as))")
         auto
    from assms Instr inst False have "allocated_stack_size st1 = allocated_stack_size st"
      by (auto simp: save_return_address_def save_callee_save_def
            split: if_splits sum.splits argument.splits option.splits)
    with n show ?thesis by simp
  qed
qed

lemma stack_loop_size:
  "stack_loop xs st = Inr st1 \<Longrightarrow>
     allocated_stack_size st1 =
       (case List.map_filter sp_adjustment xs of
          [] \<Rightarrow> allocated_stack_size st
        | n # ns \<Rightarrow> last (n # ns))"
proof (induction xs arbitrary: st)
  case Nil
  then show ?case by (simp add: List.map_filter_simps)
next
  case (Cons x xs)
  from Cons.prems obtain st' where s: "stack_step x st = Inr st'"
    and l: "stack_loop xs st' = Inr st1" by (auto split: sum.splits)
  from Cons.IH[OF l] stack_step_size[OF s] show ?case
    by (auto simp: List.map_filter_simps split: option.splits list.splits)
qed

text \<open>
  What the loop leaves in \<open>allocated_stack_size\<close>: every \<open>addiu\<close> whose first
  operand is \<open>$sp\<close> overwrites it with its negated immediate.
\<close>

lemma find_stack_info_last_adjustment:
  assumes "find_stack_info flow_analysis = Inr st"
  shows "allocated_stack_size st =
           (case List.map_filter sp_adjustment
                   (instructions (node_block (hd (nodes flow_analysis)))) of
              [] \<Rightarrow> 0
            | n # ns \<Rightarrow> last (n # ns))"
proof -
  from assms obtain start_node rest st0 where
    n: "nodes flow_analysis = start_node # rest"
    and l: "stack_loop (instructions (node_block start_node)) initial_stack_info = Inr st0"
    and st: "st = derive_local_vars_region_bottom st0"
    by (auto simp: find_stack_info_def split: list.splits sum.splits)
  have "allocated_stack_size st = allocated_stack_size st0"
    using st by (simp add: derive_local_vars_region_bottom_def)
  with stack_loop_size[OF l] n show ?thesis
    by (auto simp: initial_stack_info_def split: list.splits)
qed

definition epilogue_example :: flow_analysis where
  "epilogue_example =
     FlowAnalysis [ExitNode \<lparr>index = 0, label = None, instructions =
       [Instr (Instruction ''addiu'' [Register ''sp'', Register ''sp'', NumberLiteral (- 32)]),
        Instr (Instruction ''jr'' [Register ''ra'']),
        Instr (Instruction ''addiu'' [Register ''sp'', Register ''sp'', NumberLiteral 32])]\<rparr>]"

text \<open>
  Claim C6 at the failing input: in the one-block function
  \<open>addiu $sp, $sp, -0x20; jr $ra; addiu $sp, $sp, 0x20\<close> the first \<open>addiu\<close>
  allocates a frame of 32 bytes and the second, the epilogue, overwrites
  \<open>allocated_stack_size\<close> with \<open>-32\<close>: a negative size, where the claim gives the
  absolute value of the first immediate, 32.
\<close>

theorem find_stack_info_epilogue_negative_size:
  "find_stack_info epilogue_example =
     Inr \<lparr>allocated_stack_size = - 32, is_leaf = True, local_vars_region_bottom = 0,
          return_addr_location = 0, callee_save_reg_locations = []\<rparr>
   \<and> (- 32 :: int) \<noteq> \<bar>- 32\<bar>"
  by (simp add: find_stack_info_def epilogue_example_def initial_stack_info_def
        move_stack_pointer_def derive_local_vars_region_bottom_def)

lemma find_stack_info_prologue_example:
  "find_stack_info prologue_example =
     Inr \<lparr>allocated_stack_size = 32, is_leaf = False, local_vars_region_bottom = 32,
          return_addr_location = 28, callee_save_reg_locations = [(Register ''s0'', 24)]\<rparr>"
  by (simp add: find_stack_info_def prologue_example_def initial_stack_info_def
        move_stack_pointer_def save_return_address_def save_callee_save_def
        is_callee_save_def derive_local_vars_region_bottom_def)

text \<open>
  Claim C7 as written fails in its first part: for the one-block function
  \<open>sw $ra, 0x1c($sp); jr $ra; nop\<close> no \<open>addiu\<close> moves the stack pointer, so the
  size stays 0 while the region of the local variables starts at 32.
\<close>

definition saved_ra_example :: flow_analysis where
  "saved_ra_example =
     FlowAnalysis [ExitNode \<lparr>index = 0, label = None, instructions =
       [Instr (Instruction ''sw''
          [Register ''ra'', AddressMode (Some (NumberLiteral 28)) (Register ''sp'')]),
        Instr (Instruction ''jr'' [Register ''ra'']),
        Instr (Instruction ''nop'' [])]\<rparr>]"

theorem find_stack_info_bounds_counterexample:
  "find_stack_info saved_ra_example =
     Inr \<lparr>allocated_stack_size = 0, is_leaf = False, local_vars_region_bottom = 32,
          return_addr_location = 28, callee_save_reg_locations = []\<rparr>
   \<and> \<not> (32 :: int) \<le> 0"
  by (simp add: find_stack_info_def saved_ra_example_def initial_stack_info_def
        save_return_address_def derive_local_vars_region_bottom_def)

text \<open>
  The offset at which an item of the entry block saves the return address or a
  callee-save register on the stack: the offset of an \<open>sw\<close> of \<open>$ra\<close> or of
  \<open>$s0\<close> to \<open>$s7\<close> to an address \<open>offset($sp)\<close>, 0 without an offset.
\<close>

fun save_offset :: "item \<Rightarrow> int option" where
  "save_offset (Instr (Instruction m (Register r # AddressMode lhs (Register b) # _))) =
     (if m = ''sw'' \<and> (r = ''ra'' \<or> is_callee_save r) \<and> b = ''sp'' then
        (case lhs of
           None \<Rightarrow> Some 0
         | Some (NumberLiteral v) \<Rightarrow> Some v
         | Some _ \<Rightarrow> None)
      else None)"
| "save_offset _ = None"

text \<open>
  The invariant of the loop: what has been saved so far lies below \<open>n\<close>.
\<close>

definition saves_below :: "int \<Rightarrow> stack_info \<Rightarrow> bool" where
  "saves_below n st \<longleftrightarrow>
     (\<not> is_leaf st \<longrightarrow> return_addr_location st + 4 \<le> n) \<and>
     (\<forall>p \<in> set (callee_save_reg_locations st). snd p + 4 \<le> n)"

lemma dict_set_member: "p \<in> set (dict_set k v d) \<Longrightarrow> snd p = v \<or> p \<in> set d"
  by (induction d) (auto split: if_splits)

lemma save_return_address_below:
  assumes "save_return_address (Instruction m (Register r # as)) st = Inr st1"
    and "m = ''sw''" "r = ''ra''"
    and "\<forall>off. save_offset (Instr (Instruction m (Register r # as))) = Some off \<longrightarrow> off + 4 \<le> n"
    and "saves_below n st"
  shows "saves_below n st1"
proof -
  from assms(1) obtain lhs as2 where as: "as = AddressMode lhs (Register ''sp'') # as2"
    by (cases as; cases "hd as")
       (auto simp: save_return_address_def split: argument.splits if_splits)
  show ?thesis
  proof (cases lhs)
    case None
    with assms as show ?thesis by (auto simp: save_return_address_def saves_below_def)
  next
    case (Some l)
    with assms(1) as obtain v where l: "l = NumberLiteral v"
      by (cases l) (auto simp: save_return_address_def)
    with assms as Some show ?thesis by (auto simp: save_return_address_def saves_below_def)
  qed
qed

lemma save_callee_save_below:
  assumes "save_callee_save (Instruction m (Register r # as)) st = Inr st1"
    and "m = ''sw''" "is_callee_save r"
    and "\<forall>off. save_offset (Instr (Instruction m (Register r # as))) = Some off \<longrightarrow> off + 4 \<le> n"
    and "saves_below n st"
  shows "saves_below n st1"
proof (cases "\<exists>lhs as2. as = AddressMode lhs (Register ''sp'') # as2")
  case True
  then obtain lhs as2 where as: "as = AddressMode lhs (Register ''sp'') # as2" by blast
  show ?thesis
  proof (cases lhs)
    case None
    with assms as show ?thesis
      by (fastforce simp: save_callee_save_def saves_below_def dest!: dict_set_member)
  next
    case (Some l)
    with assms(1) as obtain v where l: "l = NumberLiteral v"
      by (cases l) (auto simp: save_callee_save_def)
    with assms as Some show ?thesis
      by (fastforce simp: save_callee_save_def saves_below_def dest!: dict_set_member)
  qed
next
  case False
  with assms(1) have "st1 = st"
    by (cases as; cases "hd as")
       (auto simp: save_callee_save_def split: argument.splits if_splits)
  with assms(5) show ?thesis by simp
qed

lemma move_stack_pointer_below:
  "move_stack_pointer inst st = Inr st1 \<Longrightarrow> saves_below n st \<Longrightarrow> saves_below n st1"
  by (auto simp: move_stack_pointer_def saves_below_def split: if_splits argument.splits)

lemma stack_step_below:
  assumes "stack_step x st = Inr st1"
    and "\<forall>off. save_offset x = Some off \<longrightarrow> off + 4 \<le> n"
    and "saves_below n st"
  shows "saves_below n st1"
proof (cases x)
  case (Lab l)
  with assms show ?thesis by simp
next
  case (Instr inst)
  obtain m as where inst: "inst = Instruction m as" by (cases inst)
  show ?thesis
  proof (cases as)
    case Nil
    with assms Instr inst show ?thesis by simp
  next
    case (Cons a0 as1)
    consider (addiu) "m = ''addiu''" | (sw) "m = ''sw''" | (other) "m \<noteq> ''addiu''" "m \<noteq> ''sw''"
      by blast
    then show ?thesis
    proof cases
      case addiu
      with assms(1,3) Instr inst Cons show ?thesis
        by (cases a0) (auto split: if_splits dest: move_stack_pointer_below)
    next
      case sw
      from assms(1) Instr inst Cons sw obtain r where a0: "a0 = Register r"
        by (cases a0) auto
      show ?thesis
      proof (cases "r = ''ra''")
        case True
        with assms Instr inst Cons sw a0 show ?thesis
          using save_return_address_below[of m r as1 st st1 n] by simp
      next
        case nra: False
        show ?thesis
        proof (cases "is_callee_save r")
          case True
          with assms Instr inst Cons sw a0 nra show ?thesis
            using save_callee_save_below[of m r as1 st st1 n] by simp
        next
          case False
          with assms Instr inst Cons sw a0 nra show ?thesis by simp
        qed
      qed
    next
      case other
      with assms Instr inst Cons show ?thesis by simp
    qed
  qed
qed

lemma stack_loop_below:
  "stack_loop xs st = Inr st1 \<Longrightarrow>
   \<forall>x \<in> set xs. \<forall>off. save_offset x = Some off \<longrightarrow> off + 4 \<le> n \<Longrightarrow>
   saves_below n st \<Longrightarrow> saves_below n st1"
proof (induction xs arbitrary: st)
  case Nil
  then show ?case by simp
next
  case (Cons x xs)
  from Cons.prems(1) obtain st' where s: "stack_step x st = Inr st'"
    and l: "stack_loop xs st' = Inr st1" by (auto split: sum.splits)
  from Cons.prems(2) have x: "\<forall>off. save_offset x = Some off \<longrightarrow> off + 4 \<le> n"
    and xs: "\<forall>x \<in> set xs. \<forall>off. save_offset x = Some off \<longrightarrow> off + 4 \<le> n" by simp_all
  from Cons.IH[OF l xs stack_step_below[OF s x Cons.prems(3)]] show ?case .
qed

lemma derive_bottom_below:
  assumes "saves_below n st" "0 \<le> n"
  shows "local_vars_region_bottom (derive_local_vars_region_bottom st) \<le> n"
proof (cases "is_leaf st \<and> callee_save_reg_locations st \<noteq> []")
  case True
  then have ne: "set (map snd (callee_save_reg_locations st)) \<noteq> {}" by simp
  have "Max (set (map snd (callee_save_reg_locations st))) \<in> set (map snd (callee_save_reg_locations st))"
    by (rule Max_in[OF _ ne]) simp
  then obtain p where "p \<in> set (callee_save_reg_locations st)"
    "Max (set (map snd (callee_save_reg_locations st))) = snd p" by auto
  with assms(1) have "Max (set (map snd (callee_save_reg_locations st))) + 4 \<le> n"
    unfolding saves_below_def by auto
  with True show ?thesis by (simp add: derive_local_vars_region_bottom_def)
next
  case False
  with assms show ?thesis
    by (auto simp: derive_local_vars_region_bottom_def saves_below_def)
qed

text \<open>
  Claim C7, as amended. When the saves of the entry block lie inside the allocated frame
  (\<open>allocated_stack_size\<close> is not negative, and every save of the return address or of
  a callee-save register is at an offset with \<open>offset + 4 \<le> allocated_stack_size\<close>),
  \<open>find_stack_info\<close> gives \<open>local_vars_region_bottom \<le> allocated_stack_size\<close>, and
  \<open>in_local_var_region(local_vars_region_bottom)\<close> is true exactly when the two
  bounds differ.
\<close>

theorem find_stack_info_bounds:
  assumes "find_stack_info flow_analysis = Inr st"
    and "0 \<le> allocated_stack_size st"
    and "\<forall>x \<in> set (instructions (node_block (hd (nodes flow_analysis)))).
           \<forall>off. save_offset x = Some off \<longrightarrow> off + 4 \<le> allocated_stack_size st"
  shows "local_vars_region_bottom st \<le> allocated_stack_size st \<and>
         (in_local_var_region st (local_vars_region_bottom st) \<longleftrightarrow>
            local_vars_region_bottom st \<noteq> allocated_stack_size st)"
proof -
  from assms(1) obtain start_node rest st0 where
    n: "nodes flow_analysis = start_node # rest"
    and l: "stack_loop (instructions (node_block start_node)) initial_stack_info = Inr st0"
    and st: "st = derive_local_vars_region_bottom st0"
    by (auto simp: find_stack_info_def split: list.splits sum.splits)
  have sz: "allocated_stack_size st = allocated_stack_size st0"
    using st by (simp add: derive_local_vars_region_bottom_def)
  have "saves_below (allocated_stack_size st) initial_stack_info"
    by (simp add: saves_below_def initial_stack_info_def)
  from stack_loop_below[OF l _ this] assms(3) n
  have "saves_below (allocated_stack_size st) st0" by simp
  from derive_bottom_below[OF this assms(2)] st
  have "local_vars_region_bottom st \<le> allocated_stack_size st" by simp
  then show ?thesis by (auto simp: in_local_var_region_def)
qed

theorem find_stack_info_bounds_witness:
  "local_vars_region_bottom
     \<lparr>allocated_stack_size = 32, is_leaf = False, local_vars_region_bottom = 32,
      return_addr_location = 28, callee_save_reg_locations = [(Register ''s0'', 24)]\<rparr>
   \<le> 32
   \<and> \<not> in_local_var_region
       \<lparr>allocated_stack_size = 32, is_leaf = False, local_vars_region_bottom = 32,
        return_addr_location = 28, callee_save_reg_locations = [(Register ''s0'', 24)]\<rparr> 32"
proof -
  have "\<forall>x \<in> set (instructions (node_block (hd (nodes prologue_example)))).
           \<forall>off. save_offset x = Some off \<longrightarrow> off + 4 \<le> 32"
    by (simp add: prologue_example_def is_callee_save_def)
  with find_stack_info_bounds[OF find_stack_info_prologue_example] show ?thesis by simp
qed

section \<open>Lifting instructions\<close>

text \<open>
  \<open>translate_block_body\<close> keeps a register map, from operands to the values lifted so
  far, and a list of stores. The values are the IR classes of \<open>main.py\<close>; an
  \<open>AddressMode\<close> built by \<open>deref\<close> around a value that is not an operand is
  \<open>AddressModeOf\<close>, the result \<open>None\<close> of \<open>handle_ori\<close> is \<open>NoneValue\<close>, and the
  pair that \<open>div\<close> yields is \<open>Tuple\<close>. Reading \<open>a[i]\<close> beyond the operands raises
  \<open>IndexError\<close> and reading a register that is not in the map \<open>KeyError\<close>;
  \<open>bind_err\<close> passes the first error on, in the order in which Python evaluates the
  keyword arguments.
\<close>

datatype expr =
    Arg argument
  | BinaryOp expr string expr
  | UnaryOp string expr
  | Cast string expr
  | TypeHint string expr
  | Tuple expr expr
  | AddressModeOf "argument option" expr
  | NoneValue

datatype store = Store (store_size: nat) (source: expr) (dest: expr) (is_float: bool)

type_synonym reg_map = "argument \<rightharpoonup> expr"

definition bind_err :: "error + 'a \<Rightarrow> ('a \<Rightarrow> error + 'b) \<Rightarrow> error + 'b" where
  "bind_err m f = (case m of Inl e \<Rightarrow> Inl e | Inr x \<Rightarrow> f x)"

definition arg_at :: "argument list \<Rightarrow> nat \<Rightarrow> error + argument" where
  "arg_at a i = (if i < length a then Inr (a ! i) else Inl IndexError)"

definition reg_get :: "reg_map \<Rightarrow> argument \<Rightarrow> error + expr" where
  "reg_get reg k = (case reg k of None \<Rightarrow> Inl KeyError | Some v \<Rightarrow> Inr v)"

definition reg_at :: "reg_map \<Rightarrow> argument list \<Rightarrow> nat \<Rightarrow> error + expr" where
  "reg_at reg a i = bind_err (arg_at a i) (reg_get reg)"

definition address_mode :: "argument option \<Rightarrow> expr \<Rightarrow> expr" where
  "address_mode lhs v = (case v of Arg a \<Rightarrow> Arg (AddressMode lhs a) | _ \<Rightarrow> AddressModeOf lhs v)"

fun deref :: "argument \<Rightarrow> reg_map \<Rightarrow> error + expr" where
  "deref (AddressMode lhs (Register r)) reg =
     (if r = ''sp'' then Inr (Arg (AddressMode lhs (Register r)))
      else bind_err (reg_get reg (Register r)) (\<lambda>v. Inr (address_mode lhs v)))"
| "deref (AddressMode lhs _) reg = Inl AssertionError"
| "deref (Register r) reg = reg_get reg (Register r)"
| "deref _ reg = Inl AssertionError"

definition load_upper :: "argument list \<Rightarrow> reg_map \<Rightarrow> error + expr" where
  "load_upper a reg =
     bind_err (arg_at a 1) (\<lambda>a1.
       case a1 of
         BinOp oper lhs rhs \<Rightarrow>
           (if oper \<noteq> ''>>'' then Inl AssertionError
            else if rhs \<noteq> NumberLiteral 16 then Inl AssertionError
            else Inr (Arg lhs))
       | NumberLiteral v \<Rightarrow> Inr (BinaryOp (Arg a1) ''<<'' (Arg (NumberLiteral 16)))
       | _ \<Rightarrow> Inr (Arg a1))"

definition handle_ori :: "argument list \<Rightarrow> reg_map \<Rightarrow> error + expr" where
  "handle_ori a reg =
     bind_err (arg_at a 1) (\<lambda>a1.
       case a1 of
         BinOp oper lhs rhs \<Rightarrow>
           (if oper \<noteq> ''&'' then Inl AssertionError
            else if rhs \<noteq> NumberLiteral 65535 then Inl AssertionError
            else Inr NoneValue)
       | _ \<Rightarrow> bind_err (reg_at reg a 0) (\<lambda>left. Inr (BinaryOp left ''<'' (Arg a1))))"

definition handle_addi :: "argument list \<Rightarrow> reg_map \<Rightarrow> error + expr" where
  "handle_addi a reg =
     (if length a = 2 then Inr (Arg (a ! 1))
      else bind_err (arg_at a 1) (\<lambda>a1.
        bind_err (register_name a1) (\<lambda>r.
          if r = ''sp'' then
            bind_err (arg_at a 2) (\<lambda>a2.
              case a2 of
                NumberLiteral v \<Rightarrow>
                  Inr (UnaryOp ''&'' (Arg (AddressMode (Some a2) (Register ''sp''))))
              | _ \<Rightarrow> Inl AssertionError)
          else
            bind_err (reg_get reg a1) (\<lambda>left.
              bind_err (arg_at a 2) (\<lambda>a2. Inr (BinaryOp left ''+'' (Arg a2)))))))"

definition store_of :: "nat \<Rightarrow> bool \<Rightarrow> reg_map \<Rightarrow> argument list \<Rightarrow> error + store" where
  "store_of sz fl reg a =
     bind_err (reg_at reg a 0) (\<lambda>src.
       bind_err (arg_at a 1) (\<lambda>a1.
         bind_err (deref a1 reg) (\<lambda>d. Inr (Store sz src d fl))))"

definition binary_rr :: "string \<Rightarrow> reg_map \<Rightarrow> argument list \<Rightarrow> error + expr" where
  "binary_rr oper reg a =
     bind_err (reg_at reg a 1) (\<lambda>left.
       bind_err (reg_at reg a 2) (\<lambda>right. Inr (BinaryOp left oper right)))"

definition binary_ri :: "string \<Rightarrow> reg_map \<Rightarrow> argument list \<Rightarrow> error + expr" where
  "binary_ri oper reg a =
     bind_err (reg_at reg a 1) (\<lambda>left.
       bind_err (arg_at a 2) (\<lambda>right. Inr (BinaryOp left oper (Arg right))))"

definition div_pair :: "reg_map \<Rightarrow> argument list \<Rightarrow> error + expr" where
  "div_pair reg a =
     bind_err (binary_rr ''/'' reg a) (\<lambda>hi.
       bind_err (binary_rr ''%'' reg a) (\<lambda>lo. Inr (Tuple hi lo)))"

definition cast_of :: "string \<Rightarrow> reg_map \<Rightarrow> argument list \<Rightarrow> error + expr" where
  "cast_of to_type reg a = bind_err (reg_at reg a 1) (\<lambda>v. Inr (Cast to_type v))"

definition load_of :: "string \<Rightarrow> reg_map \<Rightarrow> argument list \<Rightarrow> error + expr" where
  "load_of ty reg a =
     bind_err (arg_at a 1) (\<lambda>a1. bind_err (deref a1 reg) (\<lambda>v. Inr (TypeHint ty v)))"

text \<open>
  The dispatch tables, in the order of the source. The handlers of the branches, of the
  floating-point branches and of the floating-point comparisons are never called: only
  their keys matter, so these three tables are lists of mnemonics. A handler of
  \<open>cases_jumps\<close> yields \<open>None\<close> for the \<open>Return\<close> object of \<open>jr\<close>.
\<close>

definition cases_source_first_expression ::
  "(string \<times> (reg_map \<Rightarrow> argument list \<Rightarrow> error + store)) list" where
  "cases_source_first_expression =
     [(''sb'', store_of 8 False), (''sh'', store_of 16 False), (''sw'', store_of 32 False),
      (''swc1'', store_of 32 True), (''sdc1'', store_of 64 True)]"

definition cases_source_first_register ::
  "(string \<times> (reg_map \<Rightarrow> argument list \<Rightarrow> error + expr)) list" where
  "cases_source_first_register =
     [(''mtc1'', \<lambda>reg a. bind_err (reg_at reg a 0) (\<lambda>v. Inr (Cast ''f32'' v)))]"

definition cases_branches :: "string list" where
  "cases_branches =
     [''b'', ''beq'', ''bne'', ''beqz'', ''bnez'', ''blez'', ''bgtz'', ''bltz'', ''bgez'']"

definition cases_float_branches :: "string list" where
  "cases_float_branches = [''bc1t'', ''bc1f'']"

definition cases_jumps :: "(string \<times> (argument list \<Rightarrow> error + expr option)) list" where
  "cases_jumps =
     [(''jal'', \<lambda>a. bind_err (arg_at a 0) (\<lambda>a0. Inr (Some (Arg a0)))),
      (''jr'', \<lambda>a. Inr None)]"

definition cases_float_comp :: "string list" where
  "cases_float_comp = [''c.eq.s'', ''c.le.s'', ''c.lt.s'']"

definition cases_special ::
  "(string \<times> (reg_map \<Rightarrow> argument list \<Rightarrow> error + expr)) list" where
  "cases_special =
     [(''lui'', \<lambda>reg a. load_upper a reg),
      (''ori'', \<lambda>reg a. handle_ori a reg),
      (''addi'', \<lambda>reg a. handle_addi a reg)]"

definition cases_destination_first ::
  "(string \<times> (reg_map \<Rightarrow> argument list \<Rightarrow> error + expr)) list" where
  "cases_destination_first =
     [(''slt'', binary_rr ''<''),
      (''slti'', binary_ri ''<''),
      (''addu'', binary_rr ''+''),
      (''multu'', binary_rr ''*''),
      (''subu'', binary_rr ''-''),
      (''div'', div_pair),
      (''negu'', \<lambda>reg a. bind_err (reg_at reg a 1) (\<lambda>v. Inr (UnaryOp ''-'' v))),
      (''mfhi'', \<lambda>reg a. reg_get reg (Register ''hi'')),
      (''mflo'', \<lambda>reg a. reg_get reg (Register ''lo'')),
      (''div.s'', binary_rr ''/''),
      (''cvt.d.s'', cast_of ''(f64)''),
      (''cvt.s.d'', cast_of ''(f32)''),
      (''cvt.w.d'', cast_of ''(s32)''),
      (''trunc.w.s'', cast_of ''(s32)''),
      (''trunc.w.d'', cast_of ''(s32)''),
      (''and'', binary_rr ''&''),
      (''or'', binary_rr ''^''),
      (''xor'', binary_rr ''^''),
      (''andi'', binary_ri ''&''),
      (''xori'', binary_ri ''^''),
      (''sll'', binary_ri ''<<''),
      (''srl'', binary_ri ''>>''),
      (''move'', \<lambda>reg a. reg_at reg a 1),
      (''mfc1'', \<lambda>reg a. reg_at reg a 1),
      (''li'', \<lambda>reg a. bind_err (arg_at a 1) (\<lambda>a1. Inr (Arg a1))),
      (''lb'', load_of ''s8''),
      (''lh'', load_of ''s16''),
      (''lw'', load_of ''s32''),
      (''lbu'', load_of ''u8''),
      (''lhu'', load_of ''u16''),
      (''lwu'', load_of ''u32''),
      (''lwc1'', load_of ''f32''),
      (''ldc1'', load_of ''f64'')]"

definition cases_repeats :: "(string \<times> string) list" where
  "cases_repeats =
     [(''addiu'', ''addi''), (''divu'', ''div''),
      (''add.s'', ''addu''), (''mul.s'', ''multu''), (''sub.s'', ''subu''),
      (''add.d'', ''addu''), (''div.d'', ''div.s''), (''mul.d'', ''mulu''), (''sub.d'', ''subu''),
      (''cvt.d.w'', ''cvt.d.s''), (''cvt.s.w'', ''cvt.s.d''), (''cvt.w.s'', ''cvt.w.d''),
      (''c.lt.d'', ''c.lt.s''), (''c.eq.d'', ''c.eq.s''), (''c.le.d'', ''c.le.s''),
      (''sra'', ''srl''),
      (''sltiu'', ''slti''), (''sltu'', ''slt'')]"

definition true_mnemonic :: "string \<Rightarrow> string" where
  "true_mnemonic m = (case map_of cases_repeats m of Some m' \<Rightarrow> m' | None \<Rightarrow> m)"

fun remove_macro :: "argument \<Rightarrow> argument" where
  "remove_macro (Macro n a) = a"
| "remove_macro a = a"

definition assert_register :: "argument list \<Rightarrow> nat \<Rightarrow> error + argument" where
  "assert_register a i =
     bind_err (arg_at a i) (\<lambda>r. case r of Register n \<Rightarrow> Inr r | _ \<Rightarrow> Inl AssertionError)"

text \<open>
  One iteration of the loop of \<open>translate_block_body\<close>. The last branch is the
  assertion \<open>I don't know how to handle \<dots>\<close>, the error \<open>DontKnowHowToHandle\<close>.
\<close>

type_synonym lift_state = "reg_map \<times> store list"

fun translate_instruction :: "item \<Rightarrow> lift_state \<Rightarrow> error + lift_state" where
  "translate_instruction (Lab l) st = Inl AttributeError"
| "translate_instruction (Instr instr) (reg, to_store) =
     (let m = true_mnemonic (mnemonic instr) in
      if m = ''nop'' then Inr (reg, to_store)
      else
        (let a = map remove_macro (args instr) in
         case map_of cases_source_first_expression m of
           Some h \<Rightarrow> bind_err (h reg a) (\<lambda>s. Inr (reg, to_store @ [s]))
         | None \<Rightarrow>
        (case map_of cases_source_first_register m of
           Some h \<Rightarrow>
             bind_err (assert_register a 1) (\<lambda>r.
               bind_err (h reg a) (\<lambda>v. Inr (reg(r \<mapsto> v), to_store)))
         | None \<Rightarrow>
        (if m \<in> set cases_branches then Inr (reg, to_store)
         else if m \<in> set cases_float_branches then Inr (reg, to_store)
         else
        (case map_of cases_jumps m of
           Some h \<Rightarrow>
             bind_err (h a) (\<lambda>result.
               case result of
                 None \<Rightarrow> (if m = ''jr'' then Inr (reg, to_store) else Inl AssertionError)
               | Some target \<Rightarrow>
                   (if m = ''jal'' then Inr (reg, to_store) else Inl AssertionError))
         | None \<Rightarrow>
        (if m \<in> set cases_float_comp then Inr (reg, to_store)
         else
        (case map_of cases_special m of
           Some h \<Rightarrow>
             bind_err (assert_register a 0) (\<lambda>r.
               bind_err (h reg a) (\<lambda>v. Inr (reg(r \<mapsto> v), to_store)))
         | None \<Rightarrow>
        (case map_of cases_destination_first m of
           Some h \<Rightarrow>
             bind_err (assert_register a 0) (\<lambda>r.
               bind_err (h reg a) (\<lambda>v. Inr (reg(r \<mapsto> v), to_store)))
         | None \<Rightarrow> Inl (DontKnowHowToHandle m)))))))))"

fun translate_loop :: "item list \<Rightarrow> lift_state \<Rightarrow> error + lift_state" where
  "translate_loop [] st = Inr st"
| "translate_loop (instr # rest) st =
     (case translate_instruction instr st of
        Inl e \<Rightarrow> Inl e
      | Inr st1 \<Rightarrow> translate_loop rest st1)"

definition translate_block_body :: "block \<Rightarrow> reg_map \<Rightarrow> error + lift_state" where
  "translate_block_body blk reg = translate_loop (instructions blk) (reg, [])"

definition zero_register_map :: reg_map where
  "zero_register_map = [Register ''zero'' \<mapsto> Arg (NumberLiteral 0)]"

subsection \<open>The zero register\<close>

definition load_zero_block :: block where
  "load_zero_block =
     \<lparr>index = 1, label = None,
      instructions = [Instr (Instruction ''li'' [Register ''zero'', NumberLiteral 5])]\<rparr>"

lemmas lifter_tables = cases_source_first_expression_def cases_source_first_register_def
  cases_branches_def cases_float_branches_def cases_jumps_def cases_float_comp_def
  cases_special_def cases_destination_first_def cases_repeats_def true_mnemonic_def

text \<open>
  Claim C2 at the failing input: lifting the block \<open>li $zero, 5\<close> from the initial
  register map leaves \<open>Register("zero")\<close> mapped to \<open>NumberLiteral(5)\<close>. The
  destination-first branch writes \<open>reg[args[0]]\<close> whatever the register is.
\<close>

theorem translate_block_body_overwrites_zero:
  "zero_register_map (Register ''zero'') = Some (Arg (NumberLiteral 0))
   \<and> map_sum id (\<lambda>st. fst st (Register ''zero''))
         (translate_block_body load_zero_block zero_register_map)
       = Inr (Some (Arg (NumberLiteral 5)))"
  by (simp add: translate_block_body_def load_zero_block_def zero_register_map_def
        lifter_tables bind_err_def arg_at_def assert_register_def)

subsection \<open>The alias of \<open>mul.d\<close>\<close>

text \<open>
  Claim C8 at the failing input: \<open>mul.d\<close>, which the list of recognised mnemonics
  holds, is renamed to \<open>mulu\<close> by \<open>cases_repeats\<close>; no table has that key (the
  multiplication is \<open>multu\<close>, as the alias of \<open>mul.s\<close> has it), so the instruction
  reaches the last branch whatever its operands are.
\<close>

theorem translate_instruction_mul_d:
  "translate_instruction (Instr (Instruction ''mul.d'' a)) (reg, to_store)
     = Inl (DontKnowHowToHandle ''mulu'')"
  by (simp add: lifter_tables)


subsection \<open>Lifting the blocks of a function\<close>

text \<open>
  \<open>translate_to_ast\<close> analyses the function, reads the stack frame and then calls
  \<open>translate_block_body\<close> in a loop over the enumerated nodes; an exception of a call
  is caught and the loop goes on. The model records each call: the block, the register
  map the call is given and what the call does.
\<close>

record invocation =
  lifted_block :: block
  initial_registers :: reg_map
  outcome :: "error + lift_state"

fun translate_nodes :: "nat \<Rightarrow> node list \<Rightarrow> invocation list" where
  "translate_nodes i [] = []"
| "translate_nodes i (node # rest) =
     (if i = 0 then translate_nodes (i + 1) rest
      else
        (let reg = zero_register_map in
         \<lparr>lifted_block = node_block node, initial_registers = reg,
          outcome = translate_block_body (node_block node) reg\<rparr>
         # translate_nodes (i + 1) rest))"

definition translate_to_ast :: "func \<Rightarrow> (error + stack_info \<times> invocation list) option" where
  "translate_to_ast function =
     Option.bind (do_flow_analysis function) (\<lambda>r.
       case r of
         Inl e \<Rightarrow> Some (Inl e)
       | Inr flow_analysis \<Rightarrow>
           (case find_stack_info flow_analysis of
              Inl e \<Rightarrow> Some (Inl e)
            | Inr st \<Rightarrow> Some (Inr (st, translate_nodes 0 (nodes flow_analysis)))))"

definition fresh_invocation :: "node \<Rightarrow> invocation" where
  "fresh_invocation node =
     \<lparr>lifted_block = node_block node, initial_registers = zero_register_map,
      outcome = translate_block_body (node_block node) zero_register_map\<rparr>"

lemma translate_nodes_positive: "0 < i \<Longrightarrow> translate_nodes i ns = map fresh_invocation ns"
  by (induction ns arbitrary: i) (simp_all add: fresh_invocation_def)

lemma translate_nodes_zero: "translate_nodes 0 ns = map fresh_invocation (drop 1 ns)"
  by (cases ns) (simp_all add: translate_nodes_positive)

definition index_inv :: "builder \<Rightarrow> bool" where
  "index_inv st \<longleftrightarrow>
     curr_index st = length (blocks st) \<and> map index (blocks st) = [0 ..< length (blocks st)]"

lemma new_block_index_inv: "index_inv st \<Longrightarrow> index_inv (new_block st)"
  by (auto simp: index_inv_def new_block_def)

lemma take_instruction_index_inv: "index_inv st \<Longrightarrow> index_inv (take_instruction x st)"
  by (simp add: index_inv_def take_instruction_def)

lemma build_loop_index_inv:
  "build_loop xs st = Inr st' \<Longrightarrow> index_inv st \<Longrightarrow> index_inv st'"
proof (induction xs st rule: build_loop.induct)
  case (1 st)
  then show ?case by simp
next
  case (2 l rest st)
  have "index_inv ((new_block st)\<lparr>curr_label := Some l\<rparr>)"
    using new_block_index_inv[OF "2.prems"(2)] by (simp add: index_inv_def)
  with 2 show ?case by simp
next
  case (3 i rest st)
  then show ?case
    by (auto split: if_splits list.splits
          intro: new_block_index_inv take_instruction_index_inv)
qed

lemma build_blocks_index:
  assumes "build_blocks function = Inr blks"
  shows "map index blks = [0 ..< length blks]"
proof -
  let ?init = "\<lparr>blocks = [], curr_index = 0, curr_label = None, curr_instructions = []\<rparr>"
  from assms obtain st where l: "build_loop (body function) ?init = Inr st"
    and b: "blks = blocks (new_block st)"
    by (auto simp: build_blocks_def split: sum.splits)
  have "index_inv ?init" by (simp add: index_inv_def)
  from new_block_index_inv[OF build_loop_index_inv[OF l this]] b show ?thesis
    by (simp add: index_inv_def)
qed

lemma get_block_analysis_member:
  assumes "get_block_analysis blks blk nds = Some y"
  shows "\<forall>n nds'. y = Inr (n, nds') \<longrightarrow> n \<in> set nds' \<and> node_block n = blk"
proof (rule get_block_analysis.raw_induct[OF _ assms,
      where P = "\<lambda>blks blk nds y. \<forall>n nds'. y = Inr (n, nds') \<longrightarrow> n \<in> set nds' \<and> node_block n = blk"],
    goal_cases)
  case (1 f blks blk nds y)
  show ?case
  proof (cases "find (\<lambda>node. node_block node = blk) nds")
    case (Some m)
    with 1(2) show ?thesis by (auto dest: find_in_set find_node_block)
  next
    case None
    with 1(2) show ?thesis
      by (auto split: Option.bind_splits sum.splits if_splits option.splits)
  qed
qed

lemma hd_sort_key_least:
  assumes "x \<in> set xs"
  shows "f (hd (sort_key f xs)) \<le> f x"
proof -
  have ne: "sort_key f xs \<noteq> []" using assms by (cases xs) auto
  have s: "sorted (map f (sort_key f xs))" by simp
  have "x \<in> set (sort_key f xs)" using assms by simp
  then show ?thesis using s ne
    by (cases "sort_key f xs") (auto)
qed

lemma do_flow_analysis_entry_first:
  assumes "do_flow_analysis function = Some (Inr fa)"
  shows "index (node_block (hd (nodes fa))) = 0"
proof -
  from assms obtain blks n nds1 where b: "build_blocks function = Inr blks" and ne: "blks \<noteq> []"
    and g: "get_block_analysis blks (blks ! 0) [ExitNode (last blks)] = Some (Inr (n, nds1))"
    and fa: "fa = FlowAnalysis (sort_key (\<lambda>node. index (node_block node)) nds1)"
    by (auto simp: do_flow_analysis_def split: if_splits Option.bind_splits sum.splits)
  from get_block_analysis_member[OF g] have n: "n \<in> set nds1" "node_block n = blks ! 0"
    by simp_all
  from build_blocks_index[OF b] ne have "index (blks ! 0) = 0"
    by (metis length_greater_0_conv length_map nth_map nth_upt add_0)
  with hd_sort_key_least[OF n(1), of "\<lambda>node. index (node_block node)"] n(2) fa
  show ?thesis by simp
qed

lemma find_stack_info_back_edge_example:
  "find_stack_info (FlowAnalysis [ConditionalNode entry_block backward_node forward_node,
                                  forward_node, backward_node, ExitNode final_block])
     = Inr initial_stack_info"
  by (simp add: find_stack_info_def back_edge_fields initial_stack_info_def
        derive_local_vars_region_bottom_def)

text \<open>
  Claim C10. When the flow analysis and the stack-frame analysis of a function return,
  \<open>translate_to_ast\<close> returns; it has called \<open>translate_block_body\<close> once for every
  node of the flow analysis but the first, in order, each time with a new map that holds
  only \<open>Register("zero") \<mapsto> NumberLiteral(0)\<close>, so that what a call does depends on
  its block alone; and the node it has skipped is the node of the block of index 0.
\<close>

theorem translate_to_ast_lifts_all_but_entry:
  assumes "do_flow_analysis function = Some (Inr flow_analysis)"
    and "find_stack_info flow_analysis = Inr st"
  shows "translate_to_ast function =
           Some (Inr (st,
             map (\<lambda>node.
                    \<lparr>lifted_block = node_block node,
                     initial_registers = [Register ''zero'' \<mapsto> Arg (NumberLiteral 0)],
                     outcome = translate_block_body (node_block node)
                                 [Register ''zero'' \<mapsto> Arg (NumberLiteral 0)]\<rparr>)
                 (drop 1 (nodes flow_analysis))))
         \<and> index (node_block (hd (nodes flow_analysis))) = 0"
proof -
  have "fresh_invocation =
          (\<lambda>node. \<lparr>lifted_block = node_block node,
                     initial_registers = [Register ''zero'' \<mapsto> Arg (NumberLiteral 0)],
                     outcome = translate_block_body (node_block node)
                                 [Register ''zero'' \<mapsto> Arg (NumberLiteral 0)]\<rparr>)"
    by (rule ext) (simp add: fresh_invocation_def zero_register_map_def)
  then show ?thesis
    using assms do_flow_analysis_entry_first[OF assms(1)]
    by (simp add: translate_to_ast_def translate_nodes_zero)
qed

theorem translate_to_ast_lifts_all_but_entry_witness:
  "translate_to_ast back_edge_example =
     Some (Inr (initial_stack_info,
       map (\<lambda>node.
              \<lparr>lifted_block = node_block node,
               initial_registers = [Register ''zero'' \<mapsto> Arg (NumberLiteral 0)],
               outcome = translate_block_body (node_block node)
                           [Register ''zero'' \<mapsto> Arg (NumberLiteral 0)]\<rparr>)
           [forward_node, backward_node, ExitNode final_block]))
   \<and> index entry_block = 0"
  using translate_to_ast_lifts_all_but_entry[OF do_flow_analysis_back_edge_example
      find_stack_info_back_edge_example]
  by simp

section \<open>Serialising operands\<close>

text \<open>
  \<open>argument_str\<close> is \<open>__str__\<close> of the operand classes. A number is printed by
  Python's \<open>hex\<close>: an optional minus sign, \<open>0x\<close> and the lower-case hexadecimal
  digits of the absolute value, without leading zeros.
\<close>

definition hexdigit :: "nat \<Rightarrow> char" where
  "hexdigit d = ''0123456789abcdef'' ! d"

function hex_of_nat :: "nat \<Rightarrow> string" where
  "hex_of_nat n =
     (if n < 16 then [hexdigit n] else hex_of_nat (n div 16) @ [hexdigit (n mod 16)])"
  by pat_completeness auto
termination
  by (relation "measure id") auto

definition hex :: "int \<Rightarrow> string" where
  "hex v = (if v < 0 then ''-0x'' @ hex_of_nat (nat (- v)) else ''0x'' @ hex_of_nat (nat v))"

fun argument_str :: "argument \<Rightarrow> string" where
  "argument_str (Register n) = CHR ''$'' # n"
| "argument_str (GlobalSymbol n) = n"
| "argument_str (Macro n a) = CHR ''%'' # n @ ''('' @ argument_str a @ '')''"
| "argument_str (NumberLiteral v) = hex v"
| "argument_str (AddressMode None r) = ''('' @ argument_str r @ '')''"
| "argument_str (AddressMode (Some l) r) = argument_str l @ ''('' @ argument_str r @ '')''"
| "argument_str (BinOp oper l r) = argument_str l @ '' '' @ oper @ '' '' @ argument_str r"
| "argument_str (JumpTarget t) = CHR ''.'' # t"

text \<open>
  The canonical operand strings are the strings \<open>argument_str a\<close> of the operands
  \<open>a\<close> that the parser can build without a binary operation: names are made of the
  characters of \<open>valid_word\<close>, the name of a global symbol is not empty and does not
  start with a digit (the parser would read a number), a macro is \<open>hi\<close> or \<open>lo\<close>,
  and the offset of an address mode is a number or a macro.
\<close>

fun canonical :: "argument \<Rightarrow> bool" where
  "canonical (Register n) \<longleftrightarrow> set n \<subseteq> set valid_word"
| "canonical (GlobalSymbol n) \<longleftrightarrow> n \<noteq> [] \<and> set n \<subseteq> set valid_word \<and> hd n \<notin> set digits"
| "canonical (Macro n a) \<longleftrightarrow> (n = ''hi'' \<or> n = ''lo'') \<and> canonical a"
| "canonical (NumberLiteral v) \<longleftrightarrow> True"
| "canonical (AddressMode None r) \<longleftrightarrow> canonical r"
| "canonical (AddressMode (Some l) r) \<longleftrightarrow>
     (is_NumberLiteral l \<or> is_Macro l) \<and> canonical l \<and> canonical r"
| "canonical (BinOp oper l r) \<longleftrightarrow> False"
| "canonical (JumpTarget t) \<longleftrightarrow> set t \<subseteq> set valid_word"



lemma hexdigit_props:
  "\<forall>d \<in> set [0 ..< 16]. digit_value (hexdigit d) = d \<and> hexdigit d \<in> set hexdigits"
  by code_simp

lemma hexdigit_value: "d < 16 \<Longrightarrow> digit_value (hexdigit d) = d"
  using hexdigit_props by simp

lemma hexdigit_hexdigits: "d < 16 \<Longrightarrow> hexdigit d \<in> set hexdigits"
  using hexdigit_props by simp



declare hex_of_nat.simps [simp del]

lemma hex_of_nat_not_Nil: "hex_of_nat n \<noteq> []"
  by (subst hex_of_nat.simps) simp

lemma hex_of_nat_hexdigits: "set (hex_of_nat n) \<subseteq> set hexdigits"
proof (induction n rule: hex_of_nat.induct)
  case (1 n)
  show ?case
  proof (cases "n < 16")
    case True
    then show ?thesis by (subst hex_of_nat.simps) (simp add: hexdigit_hexdigits)
  next
    case False
    with 1 show ?thesis by (subst hex_of_nat.simps) (simp add: hexdigit_hexdigits)
  qed
qed

lemma number_of_hex_of_nat: "number_of_digits 16 (hex_of_nat n) = n"
proof (induction n rule: hex_of_nat.induct)
  case (1 n)
  show ?case
  proof (cases "n < 16")
    case True
    then show ?thesis
      by (subst hex_of_nat.simps) (simp add: number_of_digits_def hexdigit_value)
  next
    case False
    with 1 have "number_of_digits 16 (hex_of_nat (n div 16)) = n div 16" by simp
    with False show ?thesis
      by (subst hex_of_nat.simps) (simp add: number_of_digits_def hexdigit_value)
  qed
qed

lemma unsigned_literal_hex:
  "unsigned_literal (CHR ''0'' # CHR ''x'' # hex_of_nat n) = Inr (int n)"
  using hex_of_nat_hexdigits[of n]
  by (simp add: unsigned_literal_def hex_of_nat_not_Nil number_of_hex_of_nat)

lemma literal_eval_hex: "literal_eval (hex v) = Inr v"
  by (simp add: literal_eval_def hex_def unsigned_literal_hex)

lemma parse_word_append:
  assumes "set w \<subseteq> set v" "rest = [] \<or> hd rest \<notin> set v"
  shows "parse_word (w @ rest) v = (w, rest)"
proof -
  have t: "takeWhile (\<lambda>c. c \<in> set v) rest = []"
    using assms(2) by (cases rest) auto
  have d: "dropWhile (\<lambda>c. c \<in> set v) rest = rest"
    using assms(2) by (cases rest) auto
  from assms(1) have "\<And>x. x \<in> set w \<Longrightarrow> x \<in> set v" by blast
  then show ?thesis
    by (simp add: parse_word_def takeWhile_append2 dropWhile_append2 t d)
qed

text \<open>
  What may follow the text of an operand inside a larger one: nothing or a parenthesis.
\<close>

definition closes_operand :: "string \<Rightarrow> bool" where
  "closes_operand rest \<longleftrightarrow> rest = [] \<or> hd rest = CHR ''('' \<or> hd rest = CHR '')''"

lemma closes_operand_word: "closes_operand rest \<Longrightarrow> rest = [] \<or> hd rest \<notin> set valid_word"
  by (auto simp: closes_operand_def valid_word_def ascii_letters_def digits_def)

lemma closes_operand_number: "closes_operand rest \<Longrightarrow> rest = [] \<or> hd rest \<notin> set valid_number"
  by (auto simp: closes_operand_def valid_number_def hexdigits_def)

lemma closes_operand_paren [simp]:
  "closes_operand (CHR ''('' # xs)" "closes_operand (CHR '')'' # xs)" "closes_operand []"
  by (simp_all add: closes_operand_def)

lemma hexdigits_valid_number: "set hexdigits \<subseteq> set valid_number"
  by (auto simp: valid_number_def)

lemma hex_valid_number: "set (hex v) \<subseteq> set valid_number"
proof -
  have m: "CHR ''-'' \<in> set valid_number" "CHR ''0'' \<in> set valid_number"
    "CHR ''x'' \<in> set valid_number"
    by (simp_all add: valid_number_def hexdigits_def)
  have d: "set (hex_of_nat n) \<subseteq> set valid_number" for n
    using hex_of_nat_hexdigits[of n] hexdigits_valid_number by blast
  show ?thesis using m d[of "nat v"] d[of "nat (- v)"] by (simp add: hex_def)
qed

lemma hex_first: "\<exists>c cs. hex v = c # cs \<and> c \<in> set (''-'' @ digits)"
  by (simp add: hex_def digits_def)

lemma parse_number_hex:
  "closes_operand rest \<Longrightarrow> parse_number (hex v @ rest) = Inr (v, rest)"
  by (simp add: parse_number_def parse_word_append[OF hex_valid_number closes_operand_number]
        literal_eval_hex)

lemma parse_loop_hex:
  assumes "closes_operand rest"
  shows "parse_loop None (hex v @ rest) = parse_loop (Some (NumberLiteral v)) rest"
proof -
  from hex_first obtain c cs where h: "hex v = c # cs" and c: "c \<in> set (''-'' @ digits)"
    by blast
  have "parse_loop None (c # cs @ rest) =
          (case parse_number (c # cs @ rest) of
             Inl e \<Rightarrow> Inl e
           | Inr (n, r) \<Rightarrow> parse_loop (Some (NumberLiteral n)) r)"
    using parse_loop_number[OF c, of None "cs @ rest"] by simp
  moreover have "parse_number (c # cs @ rest) = Inr (v, rest)"
    using parse_number_hex[OF assms, of v] h by simp
  ultimately show ?thesis using h by simp
qed

lemma lparen_not_word: "CHR ''('' \<notin> set valid_word"
  by (simp add: valid_word_def ascii_letters_def digits_def)

lemma macro_name_word: "n = ''hi'' \<or> n = ''lo'' \<Longrightarrow> set n \<subseteq> set valid_word"
  by (auto simp: valid_word_def ascii_letters_def)

lemma expect_hd: "c \<in> set n \<Longrightarrow> expect n (c # rest) = Inr (c, rest)"
  by (simp add: expect_def)

lemma parse_loop_Some_closed:
  "parse_loop (Some a) (CHR '')'' # rest) = Inr (Some a, CHR '')'' # rest)"
  by (rule parse_loop_rparen)

lemma parse_loop_str:
  "canonical a \<Longrightarrow> closes_operand rest \<Longrightarrow>
     parse_loop None (argument_str a @ rest) = parse_loop (Some a) rest"
proof (induction a arbitrary: rest rule: argument_str.induct)
  case (1 n)
  then show ?case
    by (simp add: parse_loop_dollar parse_word_append closes_operand_word)
next
  case (2 n)
  then obtain c cs where n: "n = c # cs" and c: "c \<in> set valid_word" "c \<notin> set digits"
    by (cases n) auto
  from 2 n have w: "parse_word (c # cs @ rest) valid_word = (c # cs, rest)"
    using parse_word_append[of n valid_word rest] closes_operand_word[of rest] by simp
  show ?case using parse_loop_word[OF c, of None "cs @ rest"] w n by simp
next
  case (3 n a)
  from "3.prems" have nm: "n = ''hi'' \<or> n = ''lo''" and ca: "canonical a" by simp_all
  have w: "parse_word (n @ CHR ''('' # argument_str a @ CHR '')'' # rest) valid_word
             = (n, CHR ''('' # argument_str a @ CHR '')'' # rest)"
    using parse_word_append[OF macro_name_word[OF nm], of "CHR ''('' # argument_str a @ CHR '')'' # rest"]
      lparen_not_word by simp
  have inner: "parse_loop None (argument_str a @ CHR '')'' # rest) = Inr (Some a, CHR '')'' # rest)"
    using "3.IH"[OF ca, of "CHR '')'' # rest"] by (simp add: parse_loop_rparen)
  show ?case using nm
    by (auto simp: parse_loop_percent w inner expect_hd)
next
  case (4 v)
  then show ?case by (simp add: parse_loop_hex)
next
  case (5 r)
  from "5.prems" have cr: "canonical r" by simp
  have inner: "parse_loop None (argument_str r @ CHR '')'' # rest) = Inr (Some r, CHR '')'' # rest)"
    using "5.IH"[OF cr, of "CHR '')'' # rest"] by (simp add: parse_loop_rparen)
  show ?case by (simp add: parse_loop_lparen inner expect_hd)
next
  case (6 l r)
  from "6.prems" have t: "is_NumberLiteral l \<or> is_Macro l" and cl: "canonical l"
    and cr: "canonical r" by simp_all
  have outer: "parse_loop None (argument_str l @ CHR ''('' # argument_str r @ CHR '')'' # rest)
      = parse_loop (Some l) (CHR ''('' # argument_str r @ CHR '')'' # rest)"
    using "6.IH"(1)[OF cl, of "CHR ''('' # argument_str r @ CHR '')'' # rest"] by simp
  have inner: "parse_loop None (argument_str r @ CHR '')'' # rest) = Inr (Some r, CHR '')'' # rest)"
    using "6.IH"(2)[OF cr, of "CHR '')'' # rest"] by (simp add: parse_loop_rparen)
  show ?case using t by (simp add: outer parse_loop_lparen inner expect_hd)
next
  case (7 oper l r)
  then show ?case by simp
next
  case (8 t)
  then show ?case
    by (simp add: parse_loop_dot parse_word_append closes_operand_word)
qed

text \<open>
  Claim C9. Parsing the canonical string of an operand that is not (and does not hold) a
  binary operation gives that operand back, and so printing the result gives the string
  back: \<open>str(parse_arg(s)) = s\<close>.
\<close>

theorem parse_arg_roundtrip:
  assumes "canonical a"
  shows "parse_arg (argument_str a) = Inr (Some a) \<and>
         map_sum id (map_option argument_str) (parse_arg (argument_str a))
           = Inr (Some (argument_str a))"
proof -
  have "parse_loop None (argument_str a @ []) = parse_loop (Some a) []"
    by (rule parse_loop_str[OF assms]) simp
  then have "parse_arg (argument_str a) = Inr (Some a)"
    by (simp add: parse_arg_def parse_arg_elems_def)
  then show ?thesis by simp
qed

definition stack_slot_example :: argument where
  "stack_slot_example = AddressMode (Some (NumberLiteral (- 16))) (Register ''sp'')"

lemma stack_slot_example_str: "argument_str stack_slot_example = ''-0x10($sp)''"
  by (simp add: stack_slot_example_def hex_def hex_of_nat.simps hexdigit_def)

theorem parse_arg_roundtrip_witness:
  "parse_arg ''-0x10($sp)'' = Inr (Some (AddressMode (Some (NumberLiteral (- 16))) (Register ''sp'')))"
proof -
  have "canonical stack_slot_example"
    by (simp add: stack_slot_example_def valid_word_def ascii_letters_def)
  from parse_arg_roundtrip[OF this] show ?thesis
    by (simp add: stack_slot_example_str) (simp add: stack_slot_example_def)
qed

end
